(* ===== verification/Prelude.thy ===== *)
theory Prelude
  imports Complex_Main "HOL-Library.Char_ord" "HOL-Library.List_Lexorder" "HOL-Library.Multiset"
begin

text \<open>
  Shared vocabulary of the development: the names of the model's types, the
  Python runtime's exceptions as a datatype, list slicing and substring search
  as Python's \<open>str\<close> has them, and the search for the first success in a list of
  attempts, which is how both \<open>re.search\<close> and a backtracking regular-expression
  engine choose among alternatives. The generic lemmas here are declared into
  the collection \<open>py_simps\<close> or \<open>[simp]\<close>, so that the component theories
  can use them by name.
\<close>

named_theorems py_simps "equations of the Python runtime model used to evaluate and rewrite"

type_synonym pystr = string

abbreviation NL :: pystr where
  "NL \<equiv> [CHR 0x0A]"

text \<open>
  The exceptions the program can raise: Python's built-in ones that the code
  reaches, and the failures of the two external services (the generation
  service and the data store), which carry the service's message.
\<close>

datatype exn =
    GenerationError pystr
  | QueryError pystr
  | TypeError
  | ValueError
  | IndexError
  | AttributeError

subsection \<open>Slices and substring occurrences\<close>

text \<open>Python's \<open>s[i:j]\<close> for \<open>0 \<le> i \<le> j\<close>.\<close>

definition slice :: "'a list \<Rightarrow> nat \<Rightarrow> nat \<Rightarrow> 'a list" where
  "slice s i j = take (j - i) (drop i s)"

text \<open>\<open>w\<close> occurs in \<open>s\<close> starting at index \<open>i\<close>.\<close>

definition occurs_at :: "'a list \<Rightarrow> 'a list \<Rightarrow> nat \<Rightarrow> bool" where
  "occurs_at w s i \<longleftrightarrow> take (length w) (drop i s) = w"

text \<open>The first index \<open>\<ge> k\<close> at which \<open>w\<close> occurs (\<open>s.find(w, k)\<close>, with \<open>None\<close> for \<open>-1\<close>).\<close>

definition find_from :: "'a list \<Rightarrow> 'a list \<Rightarrow> nat \<Rightarrow> nat option" where
  "find_from w s k = find (occurs_at w s) [k..<Suc (length s)]"

subsection \<open>First success among alternatives\<close>

fun first_some :: "'a option list \<Rightarrow> 'a option" where
  "first_some [] = None"
| "first_some (Some x # _) = Some x"
| "first_some (None # xs) = first_some xs"

lemma first_some_append [py_simps]:
  "first_some (xs @ ys) = (case first_some xs of None \<Rightarrow> first_some ys | Some x \<Rightarrow> Some x)"
  by (induction xs rule: first_some.induct) auto

lemma first_some_None_iff [simp]:
  "first_some xs = None \<longleftrightarrow> (\<forall>x \<in> set xs. x = None)"
  by (induction xs rule: first_some.induct) auto

lemma first_some_map_find:
  "first_some (map f xs) = (case find (\<lambda>x. f x \<noteq> None) xs of None \<Rightarrow> None | Some x \<Rightarrow> f x)"
  by (induction xs) auto

lemma upt_split_at:
  assumes "a \<le> b" and "b < c"
  shows "[a..<c] = [a..<b] @ b # [Suc b..<c]"
proof -
  have "[a..<c] = [a..<b] @ [b..<c]"
    using upt_add_eq_append [OF assms(1), of "c - b"] assms(2) by simp
  also have "[b..<c] = b # [Suc b..<c]"
    using assms(2) by (rule upt_conv_Cons)
  finally show ?thesis .
qed

subsection \<open>Occurrences\<close>

lemma occurs_at_append_right [py_simps]:
  "occurs_at w (s @ t) i \<longleftrightarrow> occurs_at w s i"
  if "i + length w \<le> length s"
  using that by (simp add: occurs_at_def)

lemma occurs_at_Nil [simp]: "occurs_at [] s i"
  by (simp add: occurs_at_def)

lemma occurs_at_iff_nth:
  "w \<noteq> [] \<Longrightarrow> occurs_at w s i \<longleftrightarrow> i + length w \<le> length s \<and> (\<forall>k < length w. s ! (i + k) = w ! k)"
  unfolding occurs_at_def list_eq_iff_nth_eq by (cases w) (auto simp: min_def split: if_splits)

lemma find_from_Some_iff:
  "find_from w s k = Some j \<longleftrightarrow>
     k \<le> j \<and> j \<le> length s \<and> occurs_at w s j \<and> (\<forall>i. k \<le> i \<and> i < j \<longrightarrow> \<not> occurs_at w s i)"
    (is "?l \<longleftrightarrow> ?r")
proof
  assume ?l
  then obtain d where d: "d < Suc (length s) - k" "occurs_at w s (k + d)" "j = k + d"
    and before: "\<forall>e<d. \<not> occurs_at w s (k + e)"
    by (auto simp: find_from_def find_Some_iff nth_upt simp del: upt_Suc)
  have "\<not> occurs_at w s i" if "k \<le> i" "i < j" for i
    using before [rule_format, of "i - k"] that d(3) by simp
  with d show ?r by auto
next
  assume r: ?r
  then have "\<forall>e<j - k. \<not> occurs_at w s (k + e)" by auto
  with r show ?l
    unfolding find_from_def find_Some_iff
    by (intro exI [of _ "j - k"]) (auto simp: nth_upt simp del: upt_Suc)
qed

lemma find_from_None_iff:
  "find_from w s k = None \<longleftrightarrow> (\<forall>i. k \<le> i \<and> i \<le> length s \<longrightarrow> \<not> occurs_at w s i)"
  by (auto simp: find_from_def find_None_iff simp del: upt_Suc)

lemma find_from_skip:
  assumes "a \<le> b" and skip: "\<forall>p. a \<le> p \<and> p < b \<longrightarrow> \<not> occurs_at w s p"
  shows "find_from w s a = find_from w s b"
proof (cases "find_from w s b")
  case None
  have "\<not> occurs_at w s i" if "a \<le> i" "i \<le> length s" for i
  proof (cases "i < b")
    case True
    with skip that show ?thesis by simp
  next
    case False
    with None that show ?thesis by (simp add: find_from_None_iff)
  qed
  then have "find_from w s a = None" unfolding find_from_None_iff by blast
  with None show ?thesis by simp
next
  case (Some j)
  then have j: "b \<le> j" "j \<le> length s" "occurs_at w s j"
    and first: "\<forall>i. b \<le> i \<and> i < j \<longrightarrow> \<not> occurs_at w s i"
    by (auto simp: find_from_Some_iff)
  have "\<not> occurs_at w s i" if "a \<le> i" "i < j" for i
  proof (cases "i < b")
    case True
    with skip that show ?thesis by simp
  next
    case False
    with first that show ?thesis by simp
  qed
  with j assms(1) have "find_from w s a = Some j" by (simp add: find_from_Some_iff)
  with Some show ?thesis by simp
qed

lemma slice_append:
  assumes "a \<le> b" and "b \<le> c"
  shows "slice s a b @ slice s b c = slice s a c"
proof -
  have "c - a = (b - a) + (c - b)" using assms by simp
  then have "take (c - a) (drop a s) = take (b - a) (drop a s) @ take (c - b) (drop (b - a) (drop a s))"
    by (metis take_add)
  also have "drop (b - a) (drop a s) = drop b s" using assms(1) by simp
  finally show ?thesis by (simp add: slice_def)
qed

lemma length_slice [simp]: "length (slice s a b) = min (b - a) (length s - a)"
  by (simp add: slice_def)

lemma nth_slice: "k < b - a \<Longrightarrow> a + k < length s \<Longrightarrow> slice s a b ! k = s ! (a + k)"
  by (simp add: slice_def)

subsection \<open>Containment\<close>

text \<open>Python's \<open>w in s\<close> for strings, as a recursive test.\<close>

fun contains :: "'a list \<Rightarrow> 'a list \<Rightarrow> bool" where
  "contains w [] \<longleftrightarrow> w = []"
| "contains w (c # s) \<longleftrightarrow> take (length w) (c # s) = w \<or> contains w s"

lemma contains_iff: "contains w s \<longleftrightarrow> (\<exists>i < Suc (length s). occurs_at w s i)"
proof (induction s)
  case Nil
  then show ?case by (auto simp: occurs_at_def)
next
  case (Cons c s)
  have sh: "occurs_at w (c # s) (Suc i) \<longleftrightarrow> occurs_at w s i" for i
    by (simp add: occurs_at_def)
  have "(\<exists>i < Suc (length (c # s)). occurs_at w (c # s) i) \<longleftrightarrow>
        occurs_at w (c # s) 0 \<or> (\<exists>i < Suc (length s). occurs_at w s i)"
    unfolding length_Cons Ex_less_Suc2 sh ..
  with Cons.IH show ?case by (simp add: occurs_at_def)
qed

lemma contains_append_left [py_simps]: "contains w s \<Longrightarrow> contains w (a @ s)"
  by (induction a) auto

lemma contains_Nil [simp]: "contains [] s"
  by (cases s) auto

lemma take_length_append:
  assumes "take (length w) xs = w"
  shows "take (length w) (xs @ ys) = w"
proof -
  have "length (take (length w) xs) = length w" using assms by simp
  then have "length w \<le> length xs" by simp
  then show ?thesis by (simp add: take_append assms)
qed

lemma contains_append_right [py_simps]: "contains w s \<Longrightarrow> contains w (s @ b)"
  by (induction s) (auto, metis append_Cons take_length_append)

lemma contains_prefix: "take (length w) s = w \<Longrightarrow> contains w s"
  by (cases s) auto

lemma occurs_at_append_shift [py_simps]:
  "occurs_at w (a @ b) (length a + i) \<longleftrightarrow> occurs_at w b i"
  by (simp add: occurs_at_def)

lemma occurs_at_contains:
  assumes "occurs_at w s i" and "i + length w \<le> length s"
  shows "contains w s"
  using assms contains_iff by (metis le_imp_less_Suc le_add1 order_trans)

subsection \<open>Deterministic step relations\<close>

text \<open>A deterministic relation whose final states have no successor reaches at
  most one final state from a given state.\<close>

lemma deterministic_final_unique:
  assumes det: "\<And>s t u. R s t \<Longrightarrow> R s u \<Longrightarrow> t = u"
    and stuck: "\<And>s t. F s \<Longrightarrow> \<not> R s t"
    and "R\<^sup>*\<^sup>* x y" and "R\<^sup>*\<^sup>* x z" and "F y" and "F z"
  shows "y = z"
  using assms(3-6)
proof (induction arbitrary: z rule: converse_rtranclp_induct)
  case base
  from base.prems(1) consider "y = z" | w where "R y w"
    by (blast elim: converse_rtranclpE)
  then show ?case using base.prems(2) stuck by cases blast+
next
  case (step x x')
  from step.prems(1) consider "x = z" | w where "R x w" "R\<^sup>*\<^sup>* w z"
    by (blast elim: converse_rtranclpE)
  then show ?case
  proof cases
    case 1
    with step.hyps(1) step.prems(3) stuck show ?thesis by blast
  next
    case 2
    with step.hyps(1) det have "w = x'" by blast
    with 2 step.IH step.prems(2,3) show ?thesis by blast
  qed
qed


subsection \<open>Containment across a boundary\<close>

lemma contains_Cons_other:
  assumes "contains w (c # s)" and "w \<noteq> []" and "c \<noteq> hd w"
  shows "contains w s"
  using assms by (cases w) auto

lemma contains_snoc_other:
  assumes "contains w (s @ [c])" and "c \<notin> set w"
  shows "contains w s"
  using assms
proof (induction s)
  case Nil
  then show ?case by (cases w) auto
next
  case (Cons x s)
  show ?case
  proof (cases "take (length w) (x # s @ [c]) = w")
    case True
    show ?thesis
    proof (cases "length w \<le> length (x # s)")
      case le: True
      have "take (length w) ((x # s) @ [c]) = take (length w) (x # s)"
        using le take_append [of "length w" "x # s" "[c]"] by simp
      with True have "take (length w) (x # s) = w" by simp
      then show ?thesis by (rule contains_prefix)
    next
      case False
      then have "take (length w) (x # s @ [c]) = x # s @ [c]" by simp
      with True have "w = x # s @ [c]" by simp
      with Cons.prems(2) show ?thesis by simp
    qed
  next
    case False
    with Cons.prems(1) have "contains w (s @ [c])" by simp
    then have "contains w s" using Cons.IH Cons.prems(2) by blast
    then show ?thesis using contains_append_left [of w s "[x]"] by simp
  qed
qed

lemma find_from_tail_None:
  assumes "w \<noteq> []" and "\<not> contains w s"
  shows "find_from w (a @ s) (length a) = None"
proof -
  have "\<not> occurs_at w (a @ s) i" if "length a \<le> i" for i
  proof
    assume occ_i: "occurs_at w (a @ s) i"
    define k where "k = i - length a"
    have k: "i = length a + k" using that by (simp add: k_def)
    from occ_i have occ: "occurs_at w s k" unfolding k by (rule occurs_at_append_shift [THEN iffD1])
    from occ have "k + length w \<le> length s" using occurs_at_iff_nth [OF assms(1)] by blast
    with occ have "contains w s" by (rule occurs_at_contains)
    with assms(2) show False ..
  qed
  then show ?thesis unfolding find_from_None_iff by blast
qed

end
