(* ===== verification/PyStr.thy ===== *)
theory PyStr
  imports Prelude
begin

text \<open>
  The methods of Python's \<open>str\<close> that the query extractor calls
  (\<open>src/src/rag.py\<close>, lines 140-144): \<open>strip\<close>, \<open>splitlines\<close>,
  \<open>startswith\<close> and \<open>join\<close>, following CPython's definitions
  (\<open>Objects/unicodeobject.c\<close>, \<open>Objects/stringlib/split.h\<close>). Characters are
  Isabelle's \<open>char\<close>, that is the code points 0 to 255; on them CPython's
  whitespace set (\<open>str.isspace\<close>, also the \<open>\s\<close> class of \<open>re\<close>) and its
  line-break set (\<open>str.splitlines\<close>) are written out below. The lemmas give
  the shape of a stripped string, the line structure \<open>splitlines\<close> produces, and
  the round trip between \<open>splitlines\<close> and \<open>"\n".join\<close>.
\<close>

definition py_isspace :: "char \<Rightarrow> bool" where
  "py_isspace c \<longleftrightarrow>
     (let n = of_char c :: nat in (9 \<le> n \<and> n \<le> 13) \<or> (28 \<le> n \<and> n \<le> 32) \<or> n = 133 \<or> n = 160)"

definition py_islinebreak :: "char \<Rightarrow> bool" where
  "py_islinebreak c \<longleftrightarrow>
     (let n = of_char c :: nat in (10 \<le> n \<and> n \<le> 13) \<or> (28 \<le> n \<and> n \<le> 30) \<or> n = 133)"

definition py_lstrip :: "pystr \<Rightarrow> pystr" where
  "py_lstrip s = dropWhile py_isspace s"

definition py_rstrip :: "pystr \<Rightarrow> pystr" where
  "py_rstrip s = rev (dropWhile py_isspace (rev s))"

definition py_strip :: "pystr \<Rightarrow> pystr" where
  "py_strip s = py_rstrip (py_lstrip s)"

definition py_startswith :: "pystr \<Rightarrow> pystr \<Rightarrow> bool" where
  "py_startswith s p \<longleftrightarrow> take (length p) s = p"

text \<open>
  \<open>splitlines\<close>: find the end of the line (the first line break), cut the line,
  skip the break, reading \<open>\r\n\<close> as one break, and go on; a final break opens
  no new line, and the empty string has no lines.
\<close>

definition skip_linebreak :: "pystr \<Rightarrow> pystr" where
  "skip_linebreak r =
     (case r of [] \<Rightarrow> []
      | c # t \<Rightarrow> (if c = CHR 0x0D \<and> t \<noteq> [] \<and> hd t = CHR 0x0A then tl t else t))"

function py_splitlines :: "pystr \<Rightarrow> pystr list" where
  "py_splitlines s =
     (if s = [] then []
      else takeWhile (\<lambda>c. \<not> py_islinebreak c) s #
           py_splitlines (skip_linebreak (dropWhile (\<lambda>c. \<not> py_islinebreak c) s)))"
  by pat_completeness auto

lemma length_skip_dropWhile:
  assumes "s \<noteq> []"
  shows "length (skip_linebreak (dropWhile P s)) < length s"
proof (cases "dropWhile P s")
  case Nil
  show ?thesis
    unfolding Nil skip_linebreak_def using assms by simp
next
  case (Cons c r)
  have "length (dropWhile P s) \<le> length s"
    by (rule length_dropWhile_le)
  with Cons show ?thesis by (auto simp: skip_linebreak_def)
qed

termination py_splitlines
  by (relation "measure length") (simp_all add: length_skip_dropWhile)

declare py_splitlines.simps [simp del]

fun py_join :: "pystr \<Rightarrow> pystr list \<Rightarrow> pystr" where
  "py_join sep [] = []"
| "py_join sep [x] = x"
| "py_join sep (x # y # xs) = x @ sep @ py_join sep (y # xs)"

subsection \<open>Characters\<close>

lemma py_islinebreak_isspace: "py_islinebreak c \<Longrightarrow> py_isspace c"
  by (auto simp: py_islinebreak_def py_isspace_def Let_def)

lemma backtick_not_space [simp]: "\<not> py_isspace CHR ''`''"
  by (simp add: py_isspace_def)

lemma newline_linebreak [simp]: "py_islinebreak CHR 0x0A"
  by (simp add: py_islinebreak_def)

lemma space_isspace [simp]: "py_isspace CHR '' ''"
  by (simp add: py_isspace_def)

subsection \<open>Stripping\<close>

lemma py_strip_Nil [simp]: "py_strip [] = []"
  by (simp add: py_strip_def py_rstrip_def py_lstrip_def)

lemma py_lstrip_append_spaces:
  "(\<forall>c \<in> set a. py_isspace c) \<Longrightarrow> py_lstrip (a @ s) = py_lstrip s"
  by (induction a) (auto simp: py_lstrip_def)

lemma py_rstrip_append_spaces:
  "py_rstrip (s @ b) = py_rstrip s" if "\<forall>c \<in> set b. py_isspace c"
  using that by (simp add: py_rstrip_def dropWhile_append)

lemma py_lstrip_append:
  "py_lstrip (s @ t) = (if \<forall>c \<in> set s. py_isspace c then py_lstrip t else py_lstrip s @ t)"
  by (simp add: py_lstrip_def dropWhile_append)

lemma py_rstrip_append:
  "py_rstrip (s @ t) = (if \<forall>c \<in> set t. py_isspace c then py_rstrip s else s @ py_rstrip t)"
  by (simp add: py_rstrip_def dropWhile_append)

lemma py_strip_spaces [simp]:
  assumes "\<forall>c \<in> set s. py_isspace c"
  shows "py_strip s = []"
proof -
  from assms have "py_lstrip s = []" by (simp add: py_lstrip_def)
  then show ?thesis by (simp add: py_strip_def py_rstrip_def)
qed

text \<open>Surrounding whitespace does not change what \<open>strip\<close> returns.\<close>

lemma py_strip_surrounded [py_simps]:
  assumes "\<forall>c \<in> set a. py_isspace c" and "\<forall>c \<in> set b. py_isspace c"
  shows "py_strip (a @ s @ b) = py_strip s"
proof (cases "\<forall>c \<in> set s. py_isspace c")
  case True
  with assms have "\<forall>c \<in> set (a @ s @ b). py_isspace c" by auto
  then show ?thesis using True by (metis py_strip_spaces)
next
  case False
  have "py_lstrip (a @ s @ b) = py_lstrip s @ b"
    using assms(1) False by (auto simp: py_lstrip_append_spaces py_lstrip_append)
  moreover have "py_rstrip (py_lstrip s @ b) = py_rstrip (py_lstrip s)"
    using assms(2) by (rule py_rstrip_append_spaces)
  ultimately show ?thesis by (simp add: py_strip_def)
qed

text \<open>A stripped string neither begins nor ends with whitespace.\<close>

lemma py_strip_ends:
  "py_strip s = [] \<or> (\<not> py_isspace (hd (py_strip s)) \<and> \<not> py_isspace (last (py_strip s)))"
proof -
  define l where "l = dropWhile py_isspace s"
  define r where "r = rev (dropWhile py_isspace (rev l))"
  have hl: "l \<noteq> [] \<Longrightarrow> \<not> py_isspace (hd l)"
    unfolding l_def by (rule hd_dropWhile)
  have r_last: "r \<noteq> [] \<Longrightarrow> \<not> py_isspace (last r)"
    unfolding r_def by (simp add: last_rev hd_dropWhile)
  have "rev l = takeWhile py_isspace (rev l) @ dropWhile py_isspace (rev l)"
    by simp
  then have r_prefix: "l = r @ rev (takeWhile py_isspace (rev l))"
    unfolding r_def by (metis rev_append rev_rev_ident)
  have "r \<noteq> [] \<Longrightarrow> hd r = hd l"
    using r_prefix by (metis hd_append2)
  with hl r_last r_prefix have "r = [] \<or> (\<not> py_isspace (hd r) \<and> \<not> py_isspace (last r))"
    by fastforce
  then show ?thesis by (simp add: py_strip_def py_rstrip_def py_lstrip_def r_def l_def)
qed

text \<open>A string with no surrounding whitespace is its own strip.\<close>

lemma py_strip_trimmed:
  assumes "s = [] \<or> (\<not> py_isspace (hd s) \<and> \<not> py_isspace (last s))"
  shows "py_strip s = s"
proof -
  have "py_lstrip s = s"
    using assms by (cases s) (auto simp: py_lstrip_def)
  moreover have "py_rstrip s = s"
    using assms by (cases s rule: rev_cases) (auto simp: py_rstrip_def)
  ultimately show ?thesis by (simp add: py_strip_def)
qed

lemma py_strip_idem [py_simps]: "py_strip (py_strip s) = py_strip s"
  using py_strip_ends [of s] by (rule py_strip_trimmed)

text \<open>\<open>rstrip\<close> keeps a prefix and drops a tail of whitespace; what it keeps
  does not end in whitespace.\<close>

lemma py_rstrip_split: "x = py_rstrip x @ rev (takeWhile py_isspace (rev x))"
proof -
  have "rev x = takeWhile py_isspace (rev x) @ dropWhile py_isspace (rev x)"
    by simp
  then show ?thesis unfolding py_rstrip_def by (metis rev_append rev_rev_ident)
qed

lemma py_rstrip_last: "py_rstrip x \<noteq> [] \<Longrightarrow> \<not> py_isspace (last (py_rstrip x))"
  unfolding py_rstrip_def by (simp add: last_rev hd_dropWhile)

lemma length_py_rstrip: "length (py_rstrip x) \<le> length x"
  by (metis le_add1 length_append py_rstrip_split)

lemma py_rstrip_prefix: "take (length (py_rstrip x)) x = py_rstrip x"
  by (metis append_eq_conv_conj py_rstrip_split)

lemma py_rstrip_tail_space:
  assumes "length (py_rstrip x) \<le> q" and "q < length x"
  shows "py_isspace (x ! q)"
proof -
  let ?t = "rev (takeWhile py_isspace (rev x))"
  have "x ! q = ?t ! (q - length (py_rstrip x))"
    using assms py_rstrip_split [of x] by (metis nth_append not_less)
  moreover have "q - length (py_rstrip x) < length ?t"
    using assms py_rstrip_split [of x] by (metis diff_less_mono length_append add_diff_cancel_left')
  ultimately have "x ! q \<in> set (takeWhile py_isspace (rev x))"
    by (metis nth_mem set_rev)
  then show ?thesis by (blast dest: set_takeWhileD)
qed

lemma py_rstrip_last_nth:
  assumes "0 < length (py_rstrip x)"
  shows "\<not> py_isspace (x ! (length (py_rstrip x) - 1))"
proof -
  have "x ! (length (py_rstrip x) - 1) = py_rstrip x ! (length (py_rstrip x) - 1)"
    using assms py_rstrip_split [of x] by (metis diff_less less_numeral_extra(1) nth_append)
  also have "\<dots> = last (py_rstrip x)"
    using assms by (simp add: last_conv_nth)
  finally show ?thesis using assms py_rstrip_last by fastforce
qed

lemma py_lstrip_trimmed: "x = [] \<or> \<not> py_isspace (hd x) \<Longrightarrow> py_lstrip x = x"
  by (cases x) (auto simp: py_lstrip_def)

subsection \<open>Lines\<close>

lemma py_splitlines_Nil [simp]: "py_splitlines [] = []"
  by (simp add: py_splitlines.simps)

lemma py_splitlines_Cons:
  "py_splitlines (c # s) =
     takeWhile (\<lambda>c. \<not> py_islinebreak c) (c # s) #
     py_splitlines (skip_linebreak (dropWhile (\<lambda>c. \<not> py_islinebreak c) (c # s)))"
  by (simp add: py_splitlines.simps [of "c # s"])

lemma skip_linebreak_suffix: "\<exists>a. r = a @ skip_linebreak r"
proof (cases r)
  case Nil
  then show ?thesis by (simp add: skip_linebreak_def)
next
  case (Cons c t)
  show ?thesis
  proof (cases "c = CHR 0x0D \<and> t \<noteq> [] \<and> hd t = CHR 0x0A")
    case True
    then have "t = CHR 0x0A # tl t" by (cases t) auto
    with True Cons show ?thesis by (intro exI [of _ "[c, CHR 0x0A]"]) (simp add: skip_linebreak_def)
  next
    case False
    with Cons show ?thesis by (intro exI [of _ "[c]"]) (auto simp: skip_linebreak_def)
  qed
qed

text \<open>Every line is a piece of the text, so whatever a line contains the text
  contains.\<close>

lemma py_splitlines_contains:
  "l \<in> set (py_splitlines t) \<Longrightarrow> contains w l \<Longrightarrow> contains w t"
proof (induction t rule: py_splitlines.induct)
  case (1 t)
  let ?P = "\<lambda>c. \<not> py_islinebreak c"
  show ?case
  proof (cases t)
    case Nil
    with "1.prems" show ?thesis by simp
  next
    case (Cons c r)
    have t_split: "t = takeWhile ?P t @ dropWhile ?P t" by simp
    obtain a where a: "dropWhile ?P t = a @ skip_linebreak (dropWhile ?P t)"
      using skip_linebreak_suffix by blast
    from "1.prems"(1) Cons consider "l = takeWhile ?P t"
      | "l \<in> set (py_splitlines (skip_linebreak (dropWhile ?P t)))"
      by (auto simp: py_splitlines_Cons)
    then show ?thesis
    proof cases
      case 1
      with "1.prems"(2) t_split show ?thesis by (metis contains_append_right)
    next
      case 2
      with "1.IH" Cons "1.prems"(2) have "contains w (skip_linebreak (dropWhile ?P t))"
        by simp
      then show ?thesis using t_split a by (metis contains_append_left)
    qed
  qed
qed

text \<open>Round trip: a text whose only line break is \<open>\n\<close> and that does not end
  with one is rebuilt by joining its lines with \<open>\n\<close>.\<close>

lemma py_join_splitlines:
  assumes "\<forall>c \<in> set t. py_islinebreak c \<longrightarrow> c = CHR 0x0A"
    and "t = [] \<or> last t \<noteq> CHR 0x0A"
  shows "py_join NL (py_splitlines t) = t"
  using assms
proof (induction t rule: py_splitlines.induct)
  case (1 t)
  let ?P = "\<lambda>c. \<not> py_islinebreak c"
  show ?case
  proof (cases t)
    case Nil
    then show ?thesis by simp
  next
    case (Cons c0 r0)
    note t_ne = this
    show ?thesis
    proof (cases "dropWhile ?P t")
      case Nil
      then have "takeWhile ?P t = t" by (simp add: takeWhile_eq_all_conv)
      with Nil t_ne show ?thesis by (simp add: py_splitlines_Cons skip_linebreak_def)
    next
      case (Cons c r)
      have t_split: "takeWhile ?P t @ c # r = t"
        using Cons takeWhile_dropWhile_id [of ?P t] by simp
      have "py_islinebreak c" using Cons hd_dropWhile [of ?P t] by simp
      then have c: "c = CHR 0x0A" using "1.prems"(1) t_split by (metis in_set_conv_decomp)
      have "r \<noteq> []"
      proof
        assume "r = []"
        then have "last t = c" using t_split by (metis last_snoc)
        with c "1.prems"(2) t_ne show False by simp
      qed
      have skip: "skip_linebreak (dropWhile ?P t) = r"
        using Cons c by (simp add: skip_linebreak_def)
      have "set r \<subseteq> set t" by (subst t_split [symmetric]) auto
      then have r_chars: "\<forall>c \<in> set r. py_islinebreak c \<longrightarrow> c = CHR 0x0A"
        using "1.prems"(1) by blast
      have "last (takeWhile ?P t @ c # r) = last r" using \<open>r \<noteq> []\<close> by simp
      then have "last t = last r" by (simp only: t_split)
      then have r_last: "last r \<noteq> CHR 0x0A"
        using "1.prems"(2) t_ne by simp
      have IH: "py_join NL (py_splitlines r) = r"
        using "1.IH" t_ne skip r_chars r_last by simp
      obtain l ls where ls: "py_splitlines r = l # ls"
        using \<open>r \<noteq> []\<close> by (cases r) (auto simp: py_splitlines_Cons)
      have "py_splitlines t = takeWhile ?P t # py_splitlines r"
        using t_ne skip by (simp add: py_splitlines_Cons)
      then show ?thesis using ls IH t_split c by simp
    qed
  qed
qed

lemma py_strip_infix: "\<exists>a b. x = a @ py_strip x @ b"
proof -
  have "x = takeWhile py_isspace x @ py_lstrip x" by (simp add: py_lstrip_def)
  moreover have "py_lstrip x = py_strip x @ rev (takeWhile py_isspace (rev (py_lstrip x)))"
    unfolding py_strip_def by (rule py_rstrip_split)
  ultimately show ?thesis by (metis append.assoc)
qed

lemma contains_py_strip: "contains w (py_strip x) \<Longrightarrow> contains w x"
  using py_strip_infix [of x] by (metis contains_append_left contains_append_right)

lemma py_splitlines_line:
  assumes "\<forall>c \<in> set x. \<not> py_islinebreak c"
  shows "py_splitlines (x @ CHR 0x0A # r) = x # py_splitlines r"
proof -
  let ?P = "\<lambda>c. \<not> py_islinebreak c"
  have "takeWhile ?P (x @ CHR 0x0A # r) = x" using assms(1) by (simp add: takeWhile_append2)
  moreover have "dropWhile ?P (x @ CHR 0x0A # r) = CHR 0x0A # r" using assms(1) by (simp add: dropWhile_append2)
  ultimately show ?thesis
    using py_splitlines.simps [of "x @ CHR 0x0A # r"] by (simp add: skip_linebreak_def)
qed

lemma py_splitlines_last_line:
  assumes "\<forall>c \<in> set x. \<not> py_islinebreak c" and "x \<noteq> []"
  shows "py_splitlines x = [x]"
proof -
  let ?P = "\<lambda>c. \<not> py_islinebreak c"
  have tw: "takeWhile ?P x = x" and dw: "dropWhile ?P x = []"
    using assms(1) by (simp_all add: takeWhile_eq_all_conv dropWhile_eq_Nil_conv)
  have "py_splitlines x = takeWhile ?P x # py_splitlines (skip_linebreak (dropWhile ?P x))"
    using py_splitlines.simps [of x] assms(2) by simp
  also have "\<dots> = [x]" by (simp only: tw dw skip_linebreak_def list.case(1) py_splitlines_Nil)
  finally show ?thesis .
qed


lemma py_splitlines_nonempty: "s \<noteq> [] \<Longrightarrow> py_splitlines s \<noteq> []"
  by (cases s) (simp_all add: py_splitlines_Cons)

lemma py_join_append:
  "xs \<noteq> [] \<Longrightarrow> ys \<noteq> [] \<Longrightarrow> py_join sep (xs @ ys) = py_join sep xs @ sep @ py_join sep ys"
  by (induction sep xs rule: py_join.induct) (auto simp: neq_Nil_conv)

text \<open>Splitting at a \<open>\n\<close> that follows a text not ending in a line break
  splits the two sides apart.\<close>

lemma py_splitlines_append_line:
  assumes "a \<noteq> []" and "\<forall>c \<in> set a. py_islinebreak c \<longrightarrow> c = CHR 0x0A" and "last a \<noteq> CHR 0x0A"
  shows "py_splitlines (a @ CHR 0x0A # b) = py_splitlines a @ py_splitlines b"
  using assms
proof (induction "length a" arbitrary: a rule: less_induct)
  case less
  let ?P = "\<lambda>c. \<not> py_islinebreak c"
  show ?case
  proof (cases "dropWhile ?P a")
    case Nil
    then have "\<forall>c \<in> set a. ?P c" by (simp add: dropWhile_eq_Nil_conv)
    with less.prems(1) show ?thesis by (simp add: py_splitlines_line py_splitlines_last_line)
  next
    case (Cons c r)
    define w where "w = takeWhile ?P a"
    have a_split: "a = w @ c # r" using Cons takeWhile_dropWhile_id [of ?P a] by (simp add: w_def)
    have w: "\<forall>x \<in> set w. ?P x"
    proof
      fix x assume "x \<in> set w"
      then show "?P x" unfolding w_def by (rule set_takeWhileD [THEN conjunct2])
    qed
    have "py_islinebreak c" using Cons hd_dropWhile [of ?P a] by simp
    moreover have "c \<in> set a" using a_split by simp
    ultimately have c: "c = CHR 0x0A" using less.prems(2) by blast
    have "r \<noteq> []"
    proof
      assume "r = []"
      then have "last a = c" using a_split by simp
      with c less.prems(3) show False by simp
    qed
    have len: "length r < length a" using a_split by simp
    have r_nl: "\<forall>x \<in> set r. py_islinebreak x \<longrightarrow> x = CHR 0x0A"
      using less.prems(2) a_split by simp
    have "last r = last a" using a_split \<open>r \<noteq> []\<close> by simp
    then have r_last: "last r \<noteq> CHR 0x0A" using less.prems(3) by simp
    have IH: "py_splitlines (r @ CHR 0x0A # b) = py_splitlines r @ py_splitlines b"
      using less.hyps [OF len \<open>r \<noteq> []\<close> r_nl r_last] .
    have "py_splitlines a = w # py_splitlines r"
      using py_splitlines_line [OF w, of r] a_split c by simp
    moreover have "py_splitlines (a @ CHR 0x0A # b) = w # py_splitlines (r @ CHR 0x0A # b)"
      using py_splitlines_line [OF w, of "r @ CHR 0x0A # b"] a_split c by simp
    ultimately show ?thesis using IH by simp
  qed
qed

end
