(* ===== verification/Regex.thy ===== *)
theory Regex
  imports PyStr
begin

text \<open>
  The regular expression of \<open>src/src/rag.py\<close>, line 137:
  \<^verbatim>\<open>re.search(r"```sql\s*(.*?)\s*```", text, re.DOTALL)\<close>.
  Python's \<open>re\<close> is a backtracking engine. The pattern is a sequence of
  nodes: literals, single-character classes repeated greedily (\<open>\s*\<close>: the
  longest run first, then shorter ones) or lazily (\<open>.*?\<close>: the shortest
  first), and the two marks of group 1. \<open>match_at\<close> runs the nodes from a
  position in continuation style: a repetition tries its counts in the engine's
  order and the first count for which the rest of the pattern matches wins.
  \<open>re_search\<close> tries the start positions \<open>0 \<dots> len(text)\<close> in order.
  Under \<open>re.DOTALL\<close> the dot matches every character; \<open>\s\<close> is
  \<open>str.isspace\<close>.

  The second half proves that on this pattern the engine computes a closed
  form, \<open>fence_block\<close>: the first \<open>```sql\<close>, then the first \<open>```\<close> after it,
  and group 1 is the text between them with surrounding whitespace removed.
\<close>

datatype rx_class = AnyChar | Space

datatype rx_node =
    Lit pystr
  | Greedy rx_class
  | Lazy rx_class
  | GroupOpen
  | GroupClose

text \<open>The marks of group 1: where it opened and where it closed.\<close>

type_synonym marks = "nat option \<times> nat option"

fun class_match :: "rx_class \<Rightarrow> char \<Rightarrow> bool" where
  "class_match AnyChar c = True"
| "class_match Space c = py_isspace c"

text \<open>How many characters from position \<open>i\<close> on belong to the class: the most a
  repetition of one class can consume there.\<close>

definition class_run :: "rx_class \<Rightarrow> pystr \<Rightarrow> nat \<Rightarrow> nat" where
  "class_run c s i = length (takeWhile (class_match c) (drop i s))"

primrec match_at :: "rx_node list \<Rightarrow> pystr \<Rightarrow> nat \<Rightarrow> marks \<Rightarrow> (nat \<times> marks) option" where
  "match_at [] s i m = Some (i, m)"
| "match_at (n # ns) s i m =
     (case n of
        Lit w \<Rightarrow> (if occurs_at w s i then match_at ns s (i + length w) m else None)
      | Greedy c \<Rightarrow> first_some (map (\<lambda>k. match_at ns s (i + k) m) (rev [0..<Suc (class_run c s i)]))
      | Lazy c \<Rightarrow> first_some (map (\<lambda>k. match_at ns s (i + k) m) [0..<Suc (class_run c s i)])
      | GroupOpen \<Rightarrow> match_at ns s i (Some i, snd m)
      | GroupClose \<Rightarrow> match_at ns s i (fst m, Some i))"

text \<open>A match: where it starts, where it ends, and the marks of group 1.\<close>

type_synonym rx_match = "nat \<times> nat \<times> marks"

definition re_search :: "rx_node list \<Rightarrow> pystr \<Rightarrow> rx_match option" where
  "re_search p s =
     first_some (map (\<lambda>i. map_option (\<lambda>(e, m). (i, e, m)) (match_at p s i (None, None)))
                     [0..<Suc (length s)])"

text \<open>\<open>m.group(1)\<close>: \<open>None\<close> when the group did not take part in the match.\<close>

fun group1 :: "pystr \<Rightarrow> rx_match \<Rightarrow> pystr option" where
  "group1 s (_, _, (Some a, Some b)) = Some (slice s a b)"
| "group1 s _ = None"

definition fence_open :: pystr where
  "fence_open = ''```sql''"

definition fence_close :: pystr where
  "fence_close = ''```''"

definition sql_fence_pattern :: "rx_node list" where
  "sql_fence_pattern =
     [Lit fence_open, Greedy Space, GroupOpen, Lazy AnyChar, GroupClose, Greedy Space, Lit fence_close]"

definition fence_block :: "pystr \<Rightarrow> pystr option" where
  "fence_block s =
     (case find_from fence_open s 0 of
        None \<Rightarrow> None
      | Some i \<Rightarrow>
          (case find_from fence_close s (i + length fence_open) of
             None \<Rightarrow> None
           | Some j \<Rightarrow> Some (py_strip (slice s (i + length fence_open) j))))"

subsection \<open>Runs of a class and occurrences of the fences\<close>

lemma length_fences [simp]: "length fence_open = 6" "length fence_close = 3"
  by (simp_all add: fence_open_def fence_close_def)

lemma class_run_nth:
  assumes "k < class_run c s i"
  shows "i + k < length s" and "class_match c (s ! (i + k))"
proof -
  have k: "k < length (takeWhile (class_match c) (drop i s))"
    using assms by (simp add: class_run_def)
  then have "k < length (drop i s)"
    by (metis length_takeWhile_le order_less_le_trans)
  then show "i + k < length s" by simp
  from k have "class_match c (takeWhile (class_match c) (drop i s) ! k)"
    using nth_mem set_takeWhileD by metis
  with k \<open>k < length (drop i s)\<close> show "class_match c (s ! (i + k))"
    by (simp add: takeWhile_nth)
qed

lemma class_run_stop:
  assumes "i + class_run c s i < length s"
  shows "\<not> class_match c (s ! (i + class_run c s i))"
proof -
  let ?t = "drop i s"
  have "class_run c s i < length ?t" using assms by simp
  then have "\<not> class_match c (?t ! class_run c s i)"
    unfolding class_run_def by (rule nth_length_takeWhile)
  with assms show ?thesis by simp
qed

lemma class_run_le: "class_run c s i \<le> length s - i"
  unfolding class_run_def by (metis length_drop length_takeWhile_le)

lemma class_run_AnyChar [simp]: "class_run AnyChar s i = length s - i"
proof -
  have "class_match AnyChar = (\<lambda>c. True)" by (rule ext) simp
  then show ?thesis by (simp add: class_run_def takeWhile_eq_all_conv [THEN iffD2])
qed

lemma occurs_fence_close_nth:
  "occurs_at fence_close s p \<Longrightarrow> p < length s \<and> s ! p = CHR ''`''"
  by (auto simp: occurs_at_iff_nth fence_close_def dest: spec [of _ 0])

lemma occurs_fence_open_close:
  assumes "occurs_at fence_open s p"
  shows "occurs_at fence_close s p"
proof -
  from assms have "take 6 (drop p s) = fence_open"
    by (simp add: occurs_at_def)
  then have "take 3 (take 6 (drop p s)) = take 3 fence_open" by simp
  then have "take 3 (drop p s) = fence_close" by (simp add: fence_close_def fence_open_def)
  then show ?thesis by (simp add: occurs_at_def)
qed

lemma space_not_fence_close:
  "p < length s \<Longrightarrow> py_isspace (s ! p) \<Longrightarrow> \<not> occurs_at fence_close s p"
  using occurs_fence_close_nth by fastforce


lemma class_run_eq:
  assumes "i \<le> i'" and "i' < length s"
    and "\<forall>p. i \<le> p \<and> p < i' \<longrightarrow> class_match c (s ! p)" and "\<not> class_match c (s ! i')"
  shows "class_run c s i = i' - i"
proof -
  have "drop i s = take (i' - i) (drop i s) @ drop (i' - i) (drop i s)"
    by (rule append_take_drop_id [symmetric])
  also have "drop (i' - i) (drop i s) = s ! i' # drop (Suc i') s"
    using assms(1,2) by (simp add: Cons_nth_drop_Suc)
  finally have split: "drop i s = take (i' - i) (drop i s) @ s ! i' # drop (Suc i') s" .
  have "\<forall>x \<in> set (take (i' - i) (drop i s)). class_match c x"
    using assms(1,3) by (auto simp: in_set_conv_nth)
  then have "takeWhile (class_match c) (drop i s) = take (i' - i) (drop i s)"
    using assms(4) by (subst split) (simp add: takeWhile_append2)
  then show ?thesis using assms(1,2) by (simp add: class_run_def)
qed

lemma class_run_before_stop:
  assumes "i \<le> p" and "\<not> class_match c (s ! p)"
  shows "i + class_run c s i \<le> p"
proof (rule ccontr)
  assume "\<not> i + class_run c s i \<le> p"
  then have "p - i < class_run c s i" using assms(1) by simp
  from class_run_nth(2) [OF this] assms show False by simp
qed

subsection \<open>The matcher on the tail of the pattern\<close>

lemma match_at_GroupOpen: "match_at (GroupOpen # ns) s i m = match_at ns s i (Some i, snd m)"
  by simp

text \<open>The closing \<open>\s*```\<close>: the greedy run of whitespace is tried first, and
  no shorter run can succeed, since the closing fence begins with a backtick.\<close>

lemma match_close_tail:
  "match_at [Greedy Space, Lit fence_close] s e m =
     (if occurs_at fence_close s (e + class_run Space s e)
      then Some (e + class_run Space s e + 3, m) else None)"
proof -
  let ?n = "class_run Space s e"
  let ?f = "\<lambda>k. match_at [Lit fence_close] s (e + k) m"
  have before: "?f k = None" if "k < ?n" for k
    using class_run_nth [OF that] space_not_fence_close by simp
  have "rev [0..<Suc ?n] = ?n # rev [0..<?n]" by simp
  then have "first_some (map ?f (rev [0..<Suc ?n])) = (case ?f ?n of None \<Rightarrow> None | Some x \<Rightarrow> Some x)"
    using before by (cases "?f ?n") auto
  then show ?thesis by (simp split: option.split)
qed

text \<open>The lazy group \<open>(.*?)\<close> followed by the closing \<open>\s*```\<close>: the shortest
  group wins, which ends where the whitespace before the first closing fence
  begins.\<close>

lemma match_lazy_tail:
  assumes "g \<le> length s"
  shows "match_at [Lazy AnyChar, GroupClose, Greedy Space, Lit fence_close] s g m =
     (case find_from fence_close s g of
        None \<Rightarrow> None
      | Some j \<Rightarrow> Some (j + 3, (fst m, Some (g + length (py_rstrip (slice s g j))))))"
proof -
  let ?F = "\<lambda>k. match_at [GroupClose, Greedy Space, Lit fence_close] s (g + k) m"
  let ?ws = "\<lambda>e. e + class_run Space s e"
  have F: "?F k = (if occurs_at fence_close s (?ws (g + k))
                   then Some (?ws (g + k) + 3, (fst m, Some (g + k))) else None)" for k
  proof -
    have "?F k = match_at [Greedy Space, Lit fence_close] s (g + k) (fst m, Some (g + k))"
      by simp
    then show ?thesis by (simp only: match_close_tail)
  qed
  have lhs: "match_at [Lazy AnyChar, GroupClose, Greedy Space, Lit fence_close] s g m =
             first_some (map ?F [0..<Suc (length s - g)])"
    by simp
  show ?thesis
  proof (cases "find_from fence_close s g")
    case None
    have "?F k = None" if "k < Suc (length s - g)" for k
    proof -
      have "?ws (g + k) \<le> length s" using that assms class_run_le [of Space s "g + k"] by arith
      with None show ?thesis unfolding F by (simp add: find_from_None_iff)
    qed
    with None lhs show ?thesis by (simp del: match_at.simps)
  next
    case (Some j)
    then have j: "g \<le> j" "j \<le> length s" "occurs_at fence_close s j"
      and first: "\<forall>p. g \<le> p \<and> p < j \<longrightarrow> \<not> occurs_at fence_close s p"
      by (auto simp: find_from_Some_iff)
    have jlt: "j < length s" "s ! j = CHR ''`''" using occurs_fence_close_nth [OF j(3)] by auto
    define x where "x = slice s g j"
    define r where "r = length (py_rstrip x)"
    have lx: "length x = j - g" using j by (simp add: x_def slice_def)
    have xs: "x ! q = s ! (g + q)" if "q < j - g" for q
      using that j by (simp add: x_def slice_def)
    have r_le: "r \<le> j - g" using length_py_rstrip [of x] lx by (simp add: r_def)
    have spaces: "py_isspace (s ! p)" if "g + r \<le> p" "p < j" for p
      using py_rstrip_tail_space [of x "p - g"] that lx xs [of "p - g"] r_def by simp
    have ws_r: "?ws (g + r) = j"
      using class_run_eq [of "g + r" j s Space] r_le j(1) jlt spaces by simp
    have Fr: "?F r = Some (j + 3, (fst m, Some (g + r)))"
      using F [of r] ws_r j(3) by simp
    have Fk: "?F k = None" if "k < r" for k
    proof -
      have "0 < r" using that by simp
      then have "\<not> py_isspace (x ! (r - 1))"
        using py_rstrip_last_nth [of x] by (simp add: r_def)
      moreover have "x ! (r - 1) = s ! (g + (r - 1))"
        using xs [of "r - 1"] \<open>0 < r\<close> r_le by simp
      ultimately have "\<not> py_isspace (s ! (g + (r - 1)))" by simp
      then have "?ws (g + k) \<le> g + (r - 1)"
        using class_run_before_stop [of "g + k" "g + (r - 1)" Space s] that by simp
      then have "?ws (g + k) < j" using that r_le by simp
      with first have "\<not> occurs_at fence_close s (?ws (g + k))" by simp
      then show ?thesis unfolding F by simp
    qed
    have "r < Suc (length s - g)" using r_le j by arith
    then have split: "[0..<Suc (length s - g)] = [0..<r] @ r # [Suc r..<Suc (length s - g)]"
      by (simp add: upt_split_at del: upt_Suc)
    have none: "first_some (map ?F [0..<r]) = None"
      using Fk by (simp del: match_at.simps upt_Suc)
    have "first_some (map ?F [0..<Suc (length s - g)]) = Some (j + 3, (fst m, Some (g + r)))"
      unfolding split by (simp add: first_some_append none Fr del: match_at.simps upt_Suc)
    with lhs Some show ?thesis by (simp add: r_def x_def del: match_at.simps)
  qed
qed

subsection \<open>The matcher on the whole pattern\<close>

lemma fence_open_nth:
  "k < 3 \<Longrightarrow> fence_open ! k = CHR ''`''"
  "3 \<le> k \<Longrightarrow> k < 6 \<Longrightarrow> fence_open ! k \<noteq> CHR ''`''"
  by (auto simp: fence_open_def less_Suc_eq eval_nat_numeral le_Suc_eq)

text \<open>Two occurrences of \<open>```sql\<close> never overlap: the later one starts after
  the earlier one ends.\<close>

lemma fence_open_no_overlap:
  assumes "occurs_at fence_open s i" and "occurs_at fence_open s p" and "i < p"
  shows "i + 6 \<le> p"
proof (rule ccontr)
  assume "\<not> i + 6 \<le> p"
  have o1: "s ! (i + k) = fence_open ! k" if "k < 6" for k
    using assms(1) that by (simp add: occurs_at_iff_nth fence_open_def)
  have o2: "s ! (p + k) = fence_open ! k" if "k < 6" for k
    using assms(2) that by (simp add: occurs_at_iff_nth fence_open_def)
  define t where "t = (if p \<le> i + 3 then i + 3 - p else 0)"
  have t: "t < 3" "i + 3 \<le> p + t" "p + t < i + 6"
    using assms(3) \<open>\<not> i + 6 \<le> p\<close> by (auto simp: t_def)
  have "s ! (p + t) = CHR ''`''" using o2 [of t] t(1) fence_open_nth(1) by simp
  moreover have "s ! (p + t) = fence_open ! (p + t - i)"
    using o1 [of "p + t - i"] t assms(3) by simp
  moreover have "fence_open ! (p + t - i) \<noteq> CHR ''`''"
    using fence_open_nth(2) [of "p + t - i"] t by simp
  ultimately show False by simp
qed

text \<open>Spaces after the opening fence never hold a closing fence, so the search for
  it may start at the opening fence's end or after the whitespace.\<close>

lemma find_close_after_spaces:
  assumes "a \<le> k" and "k \<le> a + class_run Space s a"
  shows "find_from fence_close s k = find_from fence_close s (a + class_run Space s a)"
proof (rule find_from_skip)
  show "\<forall>p. k \<le> p \<and> p < a + class_run Space s a \<longrightarrow> \<not> occurs_at fence_close s p"
  proof (intro allI impI)
    fix p assume p: "k \<le> p \<and> p < a + class_run Space s a"
    then have "p - a < class_run Space s a" using assms(1) by linarith
    from class_run_nth [OF this] p assms(1) show "\<not> occurs_at fence_close s p"
      using space_not_fence_close by simp
  qed
qed (use assms in simp)

lemma match_fence_at:
  "match_at sql_fence_pattern s i (None, None) =
     (if occurs_at fence_open s i then
        (let g = i + 6 + class_run Space s (i + 6) in
         case find_from fence_close s g of
           None \<Rightarrow> None
         | Some j \<Rightarrow> Some (j + 3, (Some g, Some (g + length (py_rstrip (slice s g j))))))
      else None)"
proof (cases "occurs_at fence_open s i")
  case False
  then show ?thesis by (simp add: sql_fence_pattern_def)
next
  case True
  let ?a = "i + 6"
  let ?n = "class_run Space s ?a"
  let ?g = "?a + ?n"
  let ?R = "\<lambda>g. case find_from fence_close s g of
             None \<Rightarrow> None
           | Some j \<Rightarrow> Some (j + 3, (Some g, Some (g + length (py_rstrip (slice s g j)))))"
  let ?G = "\<lambda>k. match_at [GroupOpen, Lazy AnyChar, GroupClose, Greedy Space, Lit fence_close]
                  s (?a + k) (None, None)"
  have len: "?a \<le> length s"
    using True occurs_at_iff_nth [of fence_open s i] by (simp add: fence_open_def)
  have G: "?G k = ?R (?a + k)" if "k \<le> ?n" for k
  proof -
    have "?a + k \<le> length s" using that class_run_le [of Space s ?a] len by arith
    then show ?thesis by (simp add: match_at_GroupOpen match_lazy_tail del: match_at.simps split: option.split)
  qed
  have lhs: "match_at sql_fence_pattern s i (None, None) = first_some (map ?G (rev [0..<Suc ?n]))"
    using True by (simp add: sql_fence_pattern_def)
  have shorter: "?G k = None" if "k < ?n" and "?R ?g = None" for k
  proof -
    have "find_from fence_close s ?g = None"
      using that(2) by (simp split: option.splits)
    moreover have "find_from fence_close s (?a + k) = find_from fence_close s ?g"
      using that(1) by (intro find_close_after_spaces) simp_all
    ultimately have "?R (?a + k) = None" by simp
    with G [of k] that(1) show ?thesis by (simp del: match_at.simps)
  qed
  have "first_some (map ?G (rev [0..<Suc ?n])) = ?R ?g"
  proof (cases "?R ?g")
    case None
    with shorter have "first_some (map ?G (rev [0..<?n])) = None"
      by (simp del: match_at.simps)
    then show ?thesis using G [of ?n] by (simp del: match_at.simps split: option.split)
  next
    case (Some x)
    with G [of ?n] show ?thesis by (simp del: match_at.simps)
  qed
  with lhs True show ?thesis by (simp add: Let_def del: match_at.simps)
qed

lemma re_search_fence:
  "re_search sql_fence_pattern s =
     (case find_from fence_open s 0 of
        None \<Rightarrow> None
      | Some i \<Rightarrow>
          (let g = i + 6 + class_run Space s (i + 6) in
           case find_from fence_close s g of
             None \<Rightarrow> None
           | Some j \<Rightarrow> Some (i, j + 3, (Some g, Some (g + length (py_rstrip (slice s g j)))))))"
proof -
  define H where "H = (\<lambda>p. map_option (\<lambda>(e, m). (p, e, m)) (match_at sql_fence_pattern s p (None, None)))"
  have lhs: "re_search sql_fence_pattern s = first_some (map H [0..<Suc (length s)])"
    by (simp add: re_search_def H_def)
  have notopen: "H p = None" if "\<not> occurs_at fence_open s p" for p
    using that by (simp add: H_def match_fence_at del: match_at.simps)
  show ?thesis
  proof (cases "find_from fence_open s 0")
    case None
    then have "\<forall>p \<in> set [0..<Suc (length s)]. H p = None"
      using notopen by (auto simp: find_from_None_iff simp del: upt_Suc)
    with lhs None show ?thesis by (simp del: upt_Suc)
  next
    case (Some i)
    note open_i = Some
    then have i: "i \<le> length s" "occurs_at fence_open s i"
      and before: "\<forall>p<i. \<not> occurs_at fence_open s p"
      by (auto simp: find_from_Some_iff)
    let ?g = "i + 6 + class_run Space s (i + 6)"
    have Hi: "H i = (case find_from fence_close s ?g of
                       None \<Rightarrow> None
                     | Some j \<Rightarrow> Some (i, j + 3, (Some ?g, Some (?g + length (py_rstrip (slice s ?g j))))))"
      using i(2) by (simp add: H_def match_fence_at Let_def del: match_at.simps split: option.split)
    have after: "H p = None" if "i < p" and none: "find_from fence_close s ?g = None" for p
    proof (cases "occurs_at fence_open s p")
      case True
      have close_p: "occurs_at fence_close s p"
        using True by (rule occurs_fence_open_close)
      have "i + 6 \<le> p" using fence_open_no_overlap i(2) True that(1) by blast
      have "?g \<le> p"
      proof (rule ccontr)
        assume "\<not> ?g \<le> p"
        then have "p - (i + 6) < class_run Space s (i + 6)" using \<open>i + 6 \<le> p\<close> by linarith
        from class_run_nth (2) [OF this] have "py_isspace (s ! p)" using \<open>i + 6 \<le> p\<close> by simp
        moreover have "s ! p = CHR ''`''" using occurs_fence_close_nth [OF close_p] by simp
        ultimately show False by simp
      qed
      moreover have "p \<le> length s" using occurs_fence_close_nth [OF close_p] by simp
      ultimately have False using none close_p by (simp add: find_from_None_iff)
      then show ?thesis ..
    next
      case False
      then show ?thesis by (rule notopen)
    qed
    have split: "[0..<Suc (length s)] = [0..<i] @ i # [Suc i..<Suc (length s)]"
      using i(1) by (simp add: upt_split_at del: upt_Suc)
    have none_before: "first_some (map H [0..<i]) = None"
      using before notopen by simp
    have eq: "first_some (map H [0..<Suc (length s)]) = first_some (H i # map H [Suc i..<Suc (length s)])"
      unfolding split by (simp add: first_some_append none_before del: upt_Suc)
    show ?thesis
    proof (cases "find_from fence_close s ?g")
      case None
      then have "first_some (map H [Suc i..<Suc (length s)]) = None"
        using after by (simp del: upt_Suc)
      with None Hi open_i show ?thesis
        unfolding lhs eq by (simp add: Let_def del: upt_Suc)
    next
      case (Some j)
      with Hi open_i show ?thesis
        unfolding lhs eq by (simp add: Let_def del: upt_Suc)
    qed
  qed
qed

text \<open>Group 1 of the match is the text between the fences with its surrounding
  whitespace removed.\<close>

lemma fence_group_strip:
  assumes "occurs_at fence_open s i"
    and "find_from fence_close s (i + 6 + class_run Space s (i + 6)) = Some j"
  shows "slice s (i + 6 + class_run Space s (i + 6))
           (i + 6 + class_run Space s (i + 6) +
              length (py_rstrip (slice s (i + 6 + class_run Space s (i + 6)) j)))
         = py_strip (slice s (i + 6) j)"
proof -
  let ?a = "i + 6"
  let ?g = "?a + class_run Space s ?a"
  define x where "x = slice s ?g j"
  have j: "?g \<le> j" "j < length s"
    using assms(2) occurs_fence_close_nth by (auto simp: find_from_Some_iff)
  have "length (py_rstrip x) \<le> j - ?g"
    using length_py_rstrip [of x] j by (simp add: x_def)
  then have "slice s ?g (?g + length (py_rstrip x)) = take (length (py_rstrip x)) x"
    by (simp add: x_def slice_def min.absorb1)
  also have "\<dots> = py_rstrip x" by (rule py_rstrip_prefix)
  finally have lhs: "slice s ?g (?g + length (py_rstrip x)) = py_rstrip x" .
  have spaces: "\<forall>c \<in> set (slice s ?a ?g). py_isspace c"
  proof
    fix c assume "c \<in> set (slice s ?a ?g)"
    then obtain k where k: "k < class_run Space s ?a" "c = slice s ?a ?g ! k"
      by (auto simp: in_set_conv_nth)
    with class_run_nth [OF k(1)] show "py_isspace c" by (simp add: nth_slice)
  qed
  have "slice s ?a j = slice s ?a ?g @ x"
    using j by (simp add: x_def slice_append)
  then have "py_strip (slice s ?a j) = py_strip x"
    using py_strip_surrounded [OF spaces, of "[]" x] by simp
  also have "py_lstrip x = x"
  proof (rule py_lstrip_trimmed)
    show "x = [] \<or> \<not> py_isspace (hd x)"
    proof (cases "?g < j")
      case True
      then have "hd x = s ! ?g" using j by (simp add: x_def slice_def hd_drop_conv_nth)
      moreover have "\<not> class_match Space (s ! ?g)" using j True by (intro class_run_stop) simp
      ultimately show ?thesis by simp
    qed (simp add: x_def slice_def)
  qed
  then have "py_strip x = py_rstrip x" by (simp add: py_strip_def)
  finally show ?thesis using lhs by (simp add: x_def)
qed

lemma re_search_fence_group:
  "map_option (group1 s) (re_search sql_fence_pattern s) = map_option Some (fence_block s)"
proof (cases "find_from fence_open s 0")
  case None
  then show ?thesis by (simp add: re_search_fence fence_block_def)
next
  case (Some i)
  note open_i = Some
  then have i: "occurs_at fence_open s i" by (simp add: find_from_Some_iff)
  let ?g = "i + 6 + class_run Space s (i + 6)"
  have same: "find_from fence_close s (i + 6) = find_from fence_close s ?g"
    by (rule find_close_after_spaces) simp_all
  show ?thesis
  proof (cases "find_from fence_close s ?g")
    case None
    with open_i same show ?thesis by (simp add: re_search_fence fence_block_def Let_def)
  next
    case (Some j)
    with open_i same fence_group_strip [OF i Some] show ?thesis
      by (simp add: re_search_fence fence_block_def Let_def)
  qed
qed

subsection \<open>The backtracking search and the closed form agree\<close>

text \<open>C11: on the fence pattern, Python's backtracking \<open>re.search\<close> (leftmost
  start, greedy \<open>\s*\<close>, lazy \<open>.*?\<close>) followed by \<open>group(1)\<close> computes the closed
  form \<open>fence_block\<close>: the text between the first \<open>```sql\<close> and the first
  \<open>```\<close> after it, stripped; there is no match exactly when there is no such
  pair of markers.\<close>

theorem re_search_group_closed_form:
  "(case re_search sql_fence_pattern s of None \<Rightarrow> None | Some m \<Rightarrow> group1 s m) = fence_block s"
  using re_search_fence_group [of s]
  by (cases "re_search sql_fence_pattern s"; cases "fence_block s") auto

end
