(* ===== verification/Extractor.thy ===== *)
theory Extractor
  imports Regex
begin

text \<open>
  The query extractor, \<open>src/src/rag.py\<close> lines 137-144. The primary path
  searches the generated text for a fenced block with the regular expression of
  theory Regex and returns group 1, stripped; if there is no match, the
  fallback strips the text, splits it into lines, drops every line whose
  stripped form starts with three backticks, joins the rest with \<open>\n\<close> and
  strips the result. \<open>m.group(1).strip()\<close> would raise \<open>AttributeError\<close>
  if the group had not taken part in the match, so the model carries that
  error; the first theorem shows it never happens and gives the extractor's
  closed form.
\<close>

definition fallback_sql :: "pystr \<Rightarrow> pystr" where
  "fallback_sql content =
     py_strip (py_join NL [line \<leftarrow> py_splitlines (py_strip content).
                           \<not> py_startswith (py_strip line) ''```''])"

definition extract_sql :: "pystr \<Rightarrow> exn + pystr" where
  "extract_sql content =
     (case re_search sql_fence_pattern content of
        Some m \<Rightarrow> (case group1 content m of
                    None \<Rightarrow> Inl AttributeError
                  | Some g \<Rightarrow> Inr (py_strip g))
      | None \<Rightarrow> Inr (fallback_sql content))"

subsection \<open>Closed form\<close>

lemma extract_sql_closed_form:
  "extract_sql c = Inr (case fence_block c of Some q \<Rightarrow> q | None \<Rightarrow> fallback_sql c)"
proof (cases "re_search sql_fence_pattern c")
  case None
  with re_search_fence_group [of c] have "fence_block c = None" by simp
  with None show ?thesis by (simp add: extract_sql_def)
next
  case (Some m)
  with re_search_fence_group [of c] obtain q where
    q: "fence_block c = Some q" "group1 c m = Some q"
    by (cases "fence_block c") auto
  then have "py_strip q = q"
    by (auto simp: fence_block_def py_strip_idem split: option.splits)
  with Some q show ?thesis by (simp add: extract_sql_def)
qed

lemma extract_sql_not_Inl [simp]: "extract_sql c \<noteq> Inl e"
  by (simp add: extract_sql_closed_form)

lemma extract_sql_trimmed:
  assumes "extract_sql c = Inr q"
  shows "py_strip q = q"
proof (cases "fence_block c")
  case None
  with assms have "q = fallback_sql c" by (simp add: extract_sql_closed_form)
  then show ?thesis by (simp add: fallback_sql_def py_strip_idem)
next
  case (Some b)
  with assms show ?thesis
    by (auto simp: extract_sql_closed_form fence_block_def py_strip_idem split: option.splits)
qed

subsection \<open>Where the fences are\<close>

lemma fence_open_first:
  assumes "\<not> contains fence_open pre"
  shows "find_from fence_open (pre @ fence_open @ rest) 0 = Some (length pre)"
proof -
  let ?s = "pre @ fence_open @ rest"
  have at: "occurs_at fence_open ?s (length pre)"
    using occurs_at_append_shift [of fence_open pre "fence_open @ rest" 0]
    by (simp add: occurs_at_def)
  have "\<not> occurs_at fence_open ?s i" if "i < length pre" for i
  proof
    assume "occurs_at fence_open ?s i"
    from this at that have "i + 6 \<le> length pre" by (rule fence_open_no_overlap)
    with \<open>occurs_at fence_open ?s i\<close> have "occurs_at fence_open pre i"
      using occurs_at_append_right [where i = i and w = fence_open and s = pre] by simp
    with \<open>i + 6 \<le> length pre\<close> have "contains fence_open pre"
      by (intro occurs_at_contains) simp_all
    with assms show False ..
  qed
  with at show ?thesis by (simp add: find_from_Some_iff)
qed

lemma fence_close_first:
  assumes "\<not> contains fence_close (body @ ''``'')"
  shows "find_from fence_close (a @ body @ fence_close @ post) (length a) =
           Some (length a + length body)"
proof -
  let ?s = "a @ body @ fence_close @ post"
  have at: "occurs_at fence_close ?s (length a + length body)"
    using occurs_at_append_shift [of fence_close "a @ body" "fence_close @ post" 0]
    by (simp add: occurs_at_def)
  have "\<not> occurs_at fence_close ?s q" if "length a \<le> q" "q < length a + length body" for q
  proof
    assume occ: "occurs_at fence_close ?s q"
    have eq: "?s = a @ (body @ ''``'') @ CHR ''`'' # post"
      by (simp add: fence_close_def)
    from occ have "occurs_at fence_close (a @ (body @ ''``'') @ CHR ''`'' # post) (length a + (q - length a))"
      using that(1) eq by simp
    then have "occurs_at fence_close ((body @ ''``'') @ CHR ''`'' # post) (q - length a)"
      by (simp only: occurs_at_append_shift)
    moreover have bound: "q - length a + length fence_close \<le> length (body @ ''``'')"
      using that by simp
    ultimately have "occurs_at fence_close (body @ ''``'') (q - length a)"
      using occurs_at_append_right [OF bound, of "CHR ''`'' # post"] by blast
    from this bound have "contains fence_close (body @ ''``'')"
      by (rule occurs_at_contains)
    with assms show False ..
  qed
  with at show ?thesis by (simp add: find_from_Some_iff)
qed

lemma fence_block_None_no_close:
  assumes "\<not> contains fence_close c"
  shows "fence_block c = None"
proof -
  have "\<not> occurs_at fence_open c i" if "i \<le> length c" for i
  proof
    assume op: "occurs_at fence_open c i"
    then have "occurs_at fence_close c i" by (rule occurs_fence_open_close)
    moreover have "i + length fence_close \<le> length c"
      using op by (simp add: occurs_at_iff_nth fence_open_def)
    ultimately have "contains fence_close c" by (rule occurs_at_contains)
    with assms show False ..
  qed
  then have "find_from fence_open c 0 = None" by (simp add: find_from_None_iff)
  then show ?thesis by (simp add: fence_block_def)
qed

lemma fence_block_single:
  assumes "\<not> contains fence_open pre" and "\<not> contains fence_close (body @ ''``'')"
  shows "fence_block (pre @ fence_open @ body @ fence_close @ post) = Some (py_strip body)"
proof -
  let ?s = "pre @ fence_open @ body @ fence_close @ post"
  have o: "find_from fence_open ?s 0 = Some (length pre)"
    using fence_open_first [OF assms(1)] by simp
  have c: "find_from fence_close ?s (length pre + length fence_open) =
             Some (length pre + length fence_open + length body)"
    using fence_close_first [OF assms(2), of "pre @ fence_open" post] by simp
  have "slice ?s (length pre + length fence_open) (length pre + length fence_open + length body) = body"
    by (simp add: slice_def)
  with o c show ?thesis by (simp add: fence_block_def)
qed

lemma contains_fence_open_close: "contains fence_open s \<Longrightarrow> contains fence_close s"
  using occurs_fence_open_close by (auto simp: contains_iff)

text \<open>Lines of a text with no fence marker survive the fallback's filter.\<close>

lemma fence_free_lines_kept:
  assumes "\<not> contains fence_close t"
  shows "[l \<leftarrow> py_splitlines t. \<not> py_startswith (py_strip l) ''```''] = py_splitlines t"
proof -
  have "\<not> py_startswith (py_strip l) ''```''" if "l \<in> set (py_splitlines t)" for l
  proof
    assume "py_startswith (py_strip l) ''```''"
    then have "contains fence_close (py_strip l)"
      by (simp add: py_startswith_def fence_close_def contains_prefix)
    then have "contains fence_close l" by (rule contains_py_strip)
    with that have "contains fence_close t" by (rule py_splitlines_contains)
    with assms show False ..
  qed
  then show ?thesis by (simp add: filter_id_conv)
qed

text \<open>The marker line itself is dropped by the fallback's filter.\<close>

lemma fence_open_line_dropped: "py_startswith (py_strip fence_open) ''```''"
  by (simp add: fence_open_def py_strip_def py_lstrip_def py_rstrip_def py_isspace_def py_startswith_def)

lemma fence_open_trimmed: "py_rstrip fence_open = fence_open"
  by (simp add: fence_open_def py_rstrip_def py_isspace_def)

lemma fence_open_not_spaces: "\<not> (\<forall>c \<in> set fence_open. py_isspace c)"
  by (simp add: fence_open_def py_isspace_def)

lemma fence_open_no_break: "\<forall>c \<in> set fence_open. \<not> py_islinebreak c"
  by (simp add: fence_open_def py_islinebreak_def)

subsection \<open>The extractor's contract\<close>

text \<open>C1: for generated text that holds one well-formed fenced block, the
  extractor returns the block's interior with surrounding whitespace removed,
  whatever prose comes before (as long as it opens no block itself) and
  whatever comes after the closing fence.\<close>

theorem extract_single_block:
  assumes "\<not> contains fence_open pre" and "\<not> contains fence_close (body @ ''``'')"
  shows "extract_sql (pre @ fence_open @ body @ fence_close @ post) = Inr (py_strip body)"
  using fence_block_single [OF assms] by (simp add: extract_sql_closed_form)

theorem extract_single_block_witness:
  "\<not> contains fence_open [] \<and> \<not> contains fence_close ((NL @ ''SELECT 1;'' @ NL) @ ''``'') \<and>
   extract_sql ([] @ fence_open @ (NL @ ''SELECT 1;'' @ NL) @ fence_close @ (NL @ ''extra text''))
     = Inr ''SELECT 1;''"
proof -
  have h1: "\<not> contains fence_open []" by (simp add: fence_open_def)
  have h2: "\<not> contains fence_close ((NL @ ''SELECT 1;'' @ NL) @ ''``'')"
    by (simp add: fence_close_def)
  have "py_strip (NL @ ''SELECT 1;'' @ NL) = ''SELECT 1;''"
    by (simp add: py_strip_def py_lstrip_def py_rstrip_def py_isspace_def)
  with extract_single_block [OF h1 h2, of "NL @ ''extra text''"] h1 h2 show ?thesis by simp
qed

text \<open>C2: generated text with no fence marker anywhere and \<open>\n\<close> as its only
  line break is returned by the fallback path as the whole text, stripped.\<close>

theorem extract_no_fence:
  assumes "\<not> contains fence_close c" and "\<forall>ch \<in> set c. py_islinebreak ch \<longrightarrow> ch = CHR 0x0A"
  shows "extract_sql c = Inr (py_strip c)"
proof -
  let ?t = "py_strip c"
  have "\<not> contains fence_close ?t" using assms(1) contains_py_strip by blast
  then have keep: "[l \<leftarrow> py_splitlines ?t. \<not> py_startswith (py_strip l) ''```''] = py_splitlines ?t"
    by (rule fence_free_lines_kept)
  obtain a b where ab: "c = a @ ?t @ b" using py_strip_infix by blast
  have chars: "\<forall>ch \<in> set ?t. py_islinebreak ch \<longrightarrow> ch = CHR 0x0A"
    using assms(2) ab by (metis Un_iff set_append)
  have last: "?t = [] \<or> last ?t \<noteq> CHR 0x0A"
    using py_strip_ends [of c] newline_linebreak py_islinebreak_isspace by metis
  from keep have "fallback_sql c = py_strip (py_join NL (py_splitlines ?t))"
    by (simp add: fallback_sql_def)
  also have "\<dots> = ?t" using py_join_splitlines [OF chars last] py_strip_idem by simp
  finally show ?thesis
    by (simp add: extract_sql_closed_form fence_block_None_no_close [OF assms(1)])
qed

theorem extract_no_fence_witness:
  "\<not> contains fence_close (''SELECT 1'' @ NL @ ''FROM t'') \<and>
   extract_sql (''SELECT 1'' @ NL @ ''FROM t'') = Inr (''SELECT 1'' @ NL @ ''FROM t'')"
proof -
  have h1: "\<not> contains fence_close (''SELECT 1'' @ NL @ ''FROM t'')" by (simp add: fence_close_def)
  have h2: "\<forall>ch \<in> set (''SELECT 1'' @ NL @ ''FROM t''). py_islinebreak ch \<longrightarrow> ch = CHR 0x0A"
    by (simp add: py_islinebreak_def)
  have "py_strip (''SELECT 1'' @ NL @ ''FROM t'') = ''SELECT 1'' @ NL @ ''FROM t''"
    by (simp add: py_strip_def py_lstrip_def py_rstrip_def py_isspace_def)
  with extract_no_fence [OF h1 h2] h1 show ?thesis by simp
qed

text \<open>C3: the extractor never raises: \<open>m.group(1)\<close> always takes part in a
  match of the fence pattern, so every generated text yields a query string.\<close>

theorem extract_sql_total: "\<exists>q. extract_sql c = Inr q"
  by (simp add: extract_sql_closed_form)

text \<open>C22: the opening marker is matched as the prefix \<open>```sql\<close> followed by zero
  or more spaces, so any word glued to it (a block tagged \<open>```sqlite\<close>,
  \<open>```sql2\<close>, ...) is not recognised as part of the marker: it becomes the
  first word of the extracted query.\<close>

theorem extract_tag_leaks:
  assumes "tag \<noteq> []" and "\<forall>c \<in> set tag. \<not> py_isspace c"
    and "\<not> contains fence_close (tag @ body @ ''``'')"
  shows "\<exists>rest. extract_sql (fence_open @ tag @ body @ fence_close @ post) = Inr (tag @ rest)"
proof -
  have "\<not> contains fence_open []" by (simp add: fence_open_def)
  moreover have "\<not> contains fence_close ((tag @ body) @ ''``'')" using assms(3) by simp
  ultimately have "fence_block ([] @ fence_open @ (tag @ body) @ fence_close @ post) = Some (py_strip (tag @ body))"
    by (rule fence_block_single)
  then have e: "extract_sql (fence_open @ tag @ body @ fence_close @ post) = Inr (py_strip (tag @ body))"
    by (simp add: extract_sql_closed_form)
  have l: "py_lstrip (tag @ body) = tag @ body"
    using assms(1,2) by (intro py_lstrip_trimmed) (cases tag, simp_all)
  have r: "py_rstrip tag = tag"
    using assms(1,2) by (cases tag rule: rev_cases) (simp_all add: py_rstrip_def)
  have "py_strip (tag @ body) = tag @ (if \<forall>c \<in> set body. py_isspace c then [] else py_rstrip body)"
    using l r by (simp add: py_strip_def py_rstrip_append)
  with e have "extract_sql (fence_open @ tag @ body @ fence_close @ post) =
      Inr (tag @ (if \<forall>c \<in> set body. py_isspace c then [] else py_rstrip body))" by simp
  then show ?thesis by blast
qed

theorem extract_tag_leaks_witness:
  "\<exists>rest. extract_sql (fence_open @ ''ite'' @ (NL @ ''SELECT 1'' @ NL) @ fence_close @ []) = Inr (''ite'' @ rest)"
proof -
  have h1: "''ite'' \<noteq> []" by simp
  have h2: "\<forall>c \<in> set ''ite''. \<not> py_isspace c" by (simp add: py_isspace_def)
  have h3: "\<not> contains fence_close (''ite'' @ (NL @ ''SELECT 1'' @ NL) @ ''``'')" by (simp add: fence_close_def)
  show ?thesis by (rule extract_tag_leaks [OF h1 h2 h3])
qed

text \<open>C24: when the reply follows the worked examples' format, prose, then a
  line opening a block, then the query, and never closes the block, the
  regular expression finds no match and the fallback drops only the marker
  line: the query handed to the data store is the prose, a line break, and the
  query.\<close>

theorem extract_unclosed_keeps_prose:
  assumes pre: "pre \<noteq> []" "py_strip pre = pre" "\<not> contains fence_close pre"
    and q: "\<not> contains fence_close q"
    and nl: "\<forall>c \<in> set (pre @ q). py_islinebreak c \<longrightarrow> c = CHR 0x0A"
  shows "extract_sql (pre @ NL @ fence_open @ NL @ q) = Inr (py_rstrip (pre @ NL @ q))"
proof -
  let ?c = "pre @ NL @ fence_open @ NL @ q"
  let ?P = "\<lambda>l. \<not> py_startswith (py_strip l) ''```''"
  have ends: "\<not> py_isspace (hd pre)" "\<not> py_isspace (last pre)"
    using py_strip_ends [of pre] pre(1,2) by simp_all
  have last_pre: "last pre \<noteq> CHR 0x0A"
    using ends(2) py_islinebreak_isspace [OF newline_linebreak] by auto
  have nl_pre: "\<forall>c \<in> set pre. py_islinebreak c \<longrightarrow> c = CHR 0x0A" using nl by simp
  have nl_q: "\<forall>c \<in> set q. py_islinebreak c \<longrightarrow> c = CHR 0x0A" using nl by simp
  \<comment> \<open>no block: the first \<open>```sql\<close> is the marker, and no \<open>```\<close> follows it\<close>
  have "\<not> contains fence_open (pre @ NL)"
  proof
    assume "contains fence_open (pre @ NL)"
    then have "contains fence_open pre" by (rule contains_snoc_other) (simp add: fence_open_def)
    then have "contains fence_close pre" by (rule contains_fence_open_close)
    with pre(3) show False ..
  qed
  then have o: "find_from fence_open ((pre @ NL) @ fence_open @ NL @ q) 0 = Some (length (pre @ NL))"
    by (rule fence_open_first)
  have "\<not> contains fence_close (NL @ q)"
  proof
    assume "contains fence_close (NL @ q)"
    then have "contains fence_close (CHR 0x0A # q)" by simp
    then have "contains fence_close q"
      using contains_Cons_other [of fence_close "CHR 0x0A" q] by (simp add: fence_close_def)
    with q show False ..
  qed
  then have "find_from fence_close ((pre @ NL @ fence_open) @ NL @ q) (length (pre @ NL @ fence_open)) = None"
    by (rule find_from_tail_None [rotated]) (simp add: fence_close_def)
  with o have "fence_block ?c = None" by (simp add: fence_block_def add.commute)
  then have e: "extract_sql ?c = Inr (fallback_sql ?c)" by (simp add: extract_sql_closed_form)
  have lstrip: "py_lstrip ?c = ?c" using pre(1) ends(1) by (intro py_lstrip_trimmed) (cases pre, simp_all)
  have keep_pre: "filter ?P (py_splitlines pre) = py_splitlines pre" using pre(3) by (rule fence_free_lines_kept)
  have join_pre: "py_join NL (py_splitlines pre) = pre" using nl_pre last_pre by (intro py_join_splitlines) simp_all
  show ?thesis
  proof (cases "\<forall>c \<in> set q. py_isspace c")
    case True
    have sp: "\<forall>c \<in> set (NL @ q). py_isspace c" using True by (simp add: py_islinebreak_isspace)
    have "py_rstrip ?c = py_rstrip (pre @ NL @ fence_open)"
      using py_rstrip_append_spaces [OF sp, of "pre @ NL @ fence_open"] by simp
    also have "\<dots> = pre @ NL @ fence_open"
      using py_rstrip_append [of "pre @ NL" fence_open] fence_open_trimmed fence_open_not_spaces by simp
    finally have "py_strip ?c = pre @ NL @ fence_open" using lstrip by (simp add: py_strip_def)
    moreover have "py_splitlines (pre @ CHR 0x0A # fence_open) = py_splitlines pre @ [fence_open]"
      using py_splitlines_append_line [OF pre(1) nl_pre last_pre]
        py_splitlines_last_line [OF fence_open_no_break] by (simp add: fence_open_def)
    ultimately have "fallback_sql ?c = py_strip pre"
      using keep_pre join_pre fence_open_line_dropped by (simp add: fallback_sql_def)
    moreover have "py_rstrip (pre @ NL @ q) = pre"
      using py_rstrip_append_spaces [OF sp, of pre] pre(2) lstrip
      by (metis py_strip_def py_lstrip_trimmed ends(1) list.collapse pre(1) append_Cons)
    ultimately show ?thesis using e pre(2) by simp
  next
    case False
    let ?q = "py_rstrip q"
    have q_ne: "?q \<noteq> []" using False by (auto simp: py_rstrip_def dropWhile_eq_Nil_conv)
    have r_nq: "py_rstrip (NL @ q) = NL @ ?q" using False py_rstrip_append [of NL q] by auto
    have ns: "\<not> (\<forall>c \<in> set (NL @ q). py_isspace c)" using False by simp
    have "py_rstrip ((pre @ NL @ fence_open) @ NL @ q) = (pre @ NL @ fence_open) @ py_rstrip (NL @ q)"
      using py_rstrip_append [of "pre @ NL @ fence_open" "NL @ q"] ns by auto
    then have "py_strip ?c = pre @ NL @ fence_open @ NL @ ?q"
      using lstrip r_nq by (simp add: py_strip_def)
    moreover have q_pref: "q = ?q @ rev (takeWhile py_isspace (rev q))" by (rule py_rstrip_split)
    have nl_q': "\<forall>c \<in> set ?q. py_islinebreak c \<longrightarrow> c = CHR 0x0A"
      using nl_q q_pref by (metis Un_iff set_append)
    have no_q': "\<not> contains fence_close ?q" using q q_pref contains_append_right by metis
    have last_q': "\<not> py_isspace (last ?q)" using q_ne by (rule py_rstrip_last)
    then have lq: "last ?q \<noteq> CHR 0x0A" using py_islinebreak_isspace [OF newline_linebreak] by auto
    have "py_splitlines (pre @ CHR 0x0A # fence_open @ CHR 0x0A # ?q) =
          py_splitlines pre @ fence_open # py_splitlines ?q"
      using py_splitlines_append_line [OF pre(1) nl_pre last_pre]
        py_splitlines_line [OF fence_open_no_break] by simp
    moreover have "py_join NL (py_splitlines pre @ py_splitlines ?q) = pre @ NL @ ?q"
      using py_join_append [OF py_splitlines_nonempty [OF pre(1)] py_splitlines_nonempty [OF q_ne]]
        join_pre py_join_splitlines [OF nl_q'] lq by simp
    moreover have "py_strip (pre @ NL @ ?q) = pre @ NL @ ?q"
      using ends(1) last_q' q_ne pre(1) by (intro py_strip_trimmed) (cases pre, simp_all)
    ultimately have "fallback_sql ?c = pre @ NL @ ?q"
      using keep_pre fence_free_lines_kept [OF no_q'] fence_open_line_dropped
      by (simp add: fallback_sql_def)
    moreover have "py_rstrip (pre @ NL @ q) = pre @ NL @ ?q"
      using py_rstrip_append [of pre "NL @ q"] r_nq ns by auto
    ultimately show ?thesis using e by simp
  qed
qed

theorem extract_unclosed_keeps_prose_witness:
  "extract_sql (''Reasoning: count rows.'' @ NL @ fence_open @ NL @ ''SELECT 1;'')
     = Inr (''Reasoning: count rows.'' @ NL @ ''SELECT 1;'')"
proof -
  have h1: "''Reasoning: count rows.'' \<noteq> []" by simp
  have h2: "py_strip ''Reasoning: count rows.'' = ''Reasoning: count rows.''"
    by (simp add: py_strip_def py_lstrip_def py_rstrip_def py_isspace_def)
  have h3: "\<not> contains fence_close ''Reasoning: count rows.''" by (simp add: fence_close_def)
  have h4: "\<not> contains fence_close ''SELECT 1;''" by (simp add: fence_close_def)
  have h5: "\<forall>c \<in> set (''Reasoning: count rows.'' @ ''SELECT 1;''). py_islinebreak c \<longrightarrow> c = CHR 0x0A"
    by (simp add: py_islinebreak_def)
  have r: "py_rstrip (''Reasoning: count rows.'' @ NL @ ''SELECT 1;'') = ''Reasoning: count rows.'' @ NL @ ''SELECT 1;''"
    by (simp add: py_rstrip_def py_isspace_def)
  show ?thesis using extract_unclosed_keeps_prose [OF h1 h2 h3 h4 h5] r by simp
qed

text \<open>C23: the spec's edge case of an extraction with nothing left: a reply
  with no opening marker whose lines are all fence lines gives the empty query,
  which the pipeline still hands to the data store.\<close>

theorem extract_only_fence_lines:
  assumes "\<not> contains fence_open c"
    and "\<forall>l \<in> set (py_splitlines (py_strip c)). py_startswith (py_strip l) ''```''"
  shows "extract_sql c = Inr []"
proof -
  have "\<not> occurs_at fence_open c i" if "i \<le> length c" for i
    using assms(1) that occurs_at_contains [of fence_open c i]
    by (auto simp: occurs_at_iff_nth fence_open_def)
  then have "find_from fence_open c 0 = None" by (simp add: find_from_None_iff)
  then have "fence_block c = None" by (simp add: fence_block_def)
  moreover have "[l \<leftarrow> py_splitlines (py_strip c). \<not> py_startswith (py_strip l) ''```''] = []"
    using assms(2) by (simp add: filter_empty_conv)
  ultimately show ?thesis by (simp add: extract_sql_closed_form fallback_sql_def)
qed

theorem extract_only_fence_lines_witness:
  "extract_sql (''```'' @ NL @ ''```'') = Inr []"
proof -
  have h1: "\<not> contains fence_open (''```'' @ NL @ ''```'')" by (simp add: fence_open_def)
  have h2: "\<forall>l \<in> set (py_splitlines (py_strip (''```'' @ NL @ ''```''))). py_startswith (py_strip l) ''```''"
    by code_simp
  show ?thesis by (rule extract_only_fence_lines [OF h1 h2])
qed

end
