(* ===== verification/Prompt.thy ===== *)
theory Prompt
  imports Regex
begin

text \<open>
  The prompt builder, \<open>src/src/rag.py\<close> lines 8-127: the schema text
  (\<open>schema\<close>, lines 8-45), the four worked examples (\<open>few_shot_example\<close>,
  lines 46-109) and the f-string that composes them with the question (lines
  115-127). A Python triple-quoted literal is written as the list of its lines
  joined with \<open>\n\<close>; the escapes \<open>\n\n\<close> inside the examples' literal are
  real line breaks and appear as empty lines. The apostrophe, which an Isabelle
  string literal cannot hold, is \<open>CHR 0x27\<close>. The lemmas give the prompt's
  layout: fixed text, the schema, the examples, the verbatim question and the
  closing cue, whatever the question is.
\<close>

definition schema :: pystr where
  "schema = py_join NL
    ['''',
     ''    '',
     '''',
     ''1. country  '',
     ''- Describes each country.  '',
     ''- Columns:  '',
     ''  - country_name (string): Name of the country  '',
     ''  - trade_port (string): Name of the country'' @ [CHR 0x27] @ ''s main trade port  '',
     ''  - development (float): Development level of the country  '',
     '''',
     ''2. trading_node  '',
     ''- Represents a trading node in the network.  '',
     ''- Columns:  '',
     ''  - trading_node (string): Node name  '',
     ''  - local_value (float): Local economic value  '',
     ''  - node_inland (boolean): Whether the node is inland  '',
     ''  - total_power (float): Total trading power  '',
     ''  - outgoing (float): Total flow going out  '',
     ''  - ingoing (float): Total flow coming in  '',
     '''',
     ''3. flow  '',
     ''- Represents a directed trade connection between two nodes.  '',
     ''- Columns:  '',
     ''  - upstream (string): Origin node of the flow  '',
     ''  - downstream (string): Destination node of the flow  '',
     ''  - flow (float): Amount of flow between the nodes  '',
     '''',
     ''4. node_country  '',
     ''- Maps each trading node to a country and describes its role.  '',
     ''- Columns:  '',
     ''  - node_name (string): Name of the node  '',
     ''  - country_name (string): The country this node belongs to  '',
     ''  - is_home (boolean): Whether this is the country'' @ [CHR 0x27] @ ''s home node  '',
     ''  - merchant (boolean): Whether this node acts as a merchant  '',
     ''  - base_trading_power (float): Original trading power  '',
     ''  - calculated_trading_power (float): Final computed power'',
     '''',
     ''    '']"

definition few_shot_lines :: "pystr list" where
  "few_shot_lines =
    ['''',
     ''Example 1:'',
     ''Question: How many nodes are inland?'',
     ''Reasoning:'',
     ''- Filter all records in the `trading_node` table where `node_inland = TRUE`.'',
     ''- Count the number of such nodes.'',
     ''SQL query:'',
     ''```sql'',
     ''SELECT COUNT(trading_node) FROM trading_node WHERE node_inland = TRUE;'',
     '''',
     '''',
     '''',
     ''    '',
     ''Example2:'',
     ''Question: Which node is connected as the upstream of the highest flow?'',
     ''Reasoning:'',
     ''- From the flow table, find the row with the highest flow value.'',
     ''- Return the upstream node of that row.'',
     ''SQL query:'',
     ''```sql'',
     ''SELECT upstream FROM flow ORDER BY flow DESC LIMIT 1;'',
     '''',
     '''',
     '''',
     ''Example3:'',
     ''Question: For the country with the highest development, what are the upstream nodes of the home node?'',
     ''Reasoning: '',
     ''- First, find the country with the highest development value in the country table.'',
     ''- Then, find the home node (is_home = TRUE) in the node_country table for that country.'',
     ''- Then, find all rows in the flow table where downstream matches the home node.'',
     ''- Finally, return the upstream nodes from those rows only if the upstream node also belongs to the same country.'',
     ''SQL query:'',
     ''```sql'',
     ''SELECT flow.upstream'',
     ''FROM flow'',
     ''JOIN node_country ON flow.upstream = node_country.node_name'',
     ''WHERE flow.downstream = ('',
     ''    SELECT node_name'',
     ''    FROM node_country'',
     ''    WHERE is_home = TRUE'',
     ''      AND country_name = ('',
     ''          SELECT country_name'',
     ''          FROM country'',
     ''          ORDER BY development DESC'',
     ''          LIMIT 1'',
     ''      )'',
     '')'',
     ''AND node_country.country_name = ('',
     ''    SELECT country_name'',
     ''    FROM country'',
     ''    ORDER BY development DESC'',
     ''    LIMIT 1'',
     '');'',
     '''',
     '''',
     '''',
     ''Example 4:  '',
     ''Question: List the top 3 inland trading nodes with the highest local value, sorted by their total outgoing flow in descending order.'',
     ''Reasoning:'',
     ''- Filter nodes where node_inland = TRUE in the trading_node table.'',
     ''- Among these, select nodes with the top 3 highest local_value.'',
     ''- Sort these top 3 nodes by their outgoing flow in descending order before returning.'',
     ''SQL query:'',
     ''```sql'',
     ''SELECT trading_node '',
     ''FROM trading_node '',
     ''WHERE node_inland = TRUE'',
     ''ORDER BY local_value DESC, outgoing DESC'',
     ''LIMIT 3;'',
     '''',
     '''',
     '''']"

definition few_shot_example :: pystr where
  "few_shot_example = py_join NL few_shot_lines"

definition prompt :: "pystr \<Rightarrow> pystr" where
  "prompt textual_question =
     ''You are an expert in relational databases and MYSQL.'' @ NL @ NL @
     ''schema: '' @ schema @ NL @ NL @
     ''Here are some examples :'' @ few_shot_example @ NL @ NL @ '' '' @
     ''Please write a correct MySQL query to answer the question below.'' @ NL @ NL @
     ''Consider the order of answers(e.g., in decreasing order, highest, most etc.)'' @ NL @ NL @
     ''DO NOT use aliasing (e.g., T1, T2) unless absolutely necessary.'' @ NL @ NL @
     ''Write clean and minimal SQL with correct column and table names.'' @ NL @ NL @
     ''Before returning the SQL query, double-check that all column names used exist in the provided schema.'' @
     ''Only use the columns and tables provided in the schema. Do not invent new columns.'' @
     ''Question:'' @ NL @ textual_question @ NL @ NL @
     ''SQL query:''"

subsection \<open>Layout\<close>

text \<open>C13: whatever the question, the prompt is fixed text, the whole schema,
  more fixed text, all the worked examples, more fixed text, the question
  verbatim, and the closing cue \<open>SQL query:\<close>.\<close>

theorem prompt_layout:
  "\<exists>a b c. \<forall>q. prompt q = a @ schema @ b @ few_shot_example @ c @ q @ NL @ NL @ ''SQL query:''"
proof (intro exI allI)
  fix q
  show "prompt q =
    (''You are an expert in relational databases and MYSQL.'' @ NL @ NL @ ''schema: '') @ schema @
    (NL @ NL @ ''Here are some examples :'') @ few_shot_example @
    (NL @ NL @ '' '' @
     ''Please write a correct MySQL query to answer the question below.'' @ NL @ NL @
     ''Consider the order of answers(e.g., in decreasing order, highest, most etc.)'' @ NL @ NL @
     ''DO NOT use aliasing (e.g., T1, T2) unless absolutely necessary.'' @ NL @ NL @
     ''Write clean and minimal SQL with correct column and table names.'' @ NL @ NL @
     ''Before returning the SQL query, double-check that all column names used exist in the provided schema.'' @
     ''Only use the columns and tables provided in the schema. Do not invent new columns.'' @
     ''Question:'' @ NL) @ q @ NL @ NL @ ''SQL query:''"
    by (simp add: prompt_def)
qed

text \<open>C21: two of the constraint sentences run into the next text, since the
  f-string parts of lines 123-124 lack the \<open>\n\n\<close> the others end with:
  every prompt contains \<open>schema.Only\<close> and \<open>columns.Question:\<close>.\<close>

theorem prompt_run_on_sentences:
  "contains ''schema.Only'' (prompt q) \<and> contains ''columns.Question:'' (prompt q)"
proof -
  let ?tail = "''in the provided schema.'' @ ''Only use the columns and tables provided in the schema. Do not invent new columns.'' @ ''Question:''"
  obtain a where a: "prompt q = a @ ?tail @ NL @ q @ NL @ NL @ ''SQL query:''"
    by (simp add: prompt_def)
  have "contains ''schema.Only'' ?tail" and "contains ''columns.Question:'' ?tail"
    by simp_all
  then show ?thesis unfolding a by (simp add: contains_append_left contains_append_right)
qed

end
