(* ===== verification/Frame.thy ===== *)
theory Frame
  imports Prelude
begin

text \<open>
  The part of pandas and numpy the answer normaliser touches
  (\<open>src/src/rag.py\<close>, lines 155-166): the result table \<open>result_df\<close> that
  \<open>db_engine.query\<close> returns, its emptiness test, \<open>iloc[0, 0]\<close>,
  \<open>sort_values(columns[0], ascending=False)\<close>, and Python's \<open>round(x, 2)\<close>.

  A cell holds the scalar types a SQL result brings: \<open>None\<close> (also pandas'
  missing markers), booleans, integers, floats (\<open>float\<close> and
  \<open>numpy.float64\<close>, the values for which \<open>isinstance(x, float)\<close> holds;
  a float is its exact real value, or NaN), \<open>decimal.Decimal\<close> (what drivers
  return for SQL DECIMAL, e.g. \<open>AVG\<close>) and strings. A frame is its column
  labels and its rows; \<open>frame_wf\<close> says every row has one cell per label.

  \<open>sort_values\<close> looks the label up (a label that occurs twice raises
  \<open>ValueError\<close>), puts the rows whose key is missing (\<open>None\<close>, NaN) last, and
  orders the others by Python's \<open><\<close>, which raises \<open>TypeError\<close> between a
  string and a number. Which of two rows with equal keys comes first is not
  specified (numpy's default sort is not stable); the model takes one order,
  and every theorem about the normaliser reads only the first cell, which does
  not depend on it.
\<close>

datatype pyfloat = Fin real | NaN

datatype cell =
    CNone
  | CBool bool
  | CInt int
  | CFloat pyfloat
  | CDecimal real
  | CStr pystr

record frame =
  columns :: "pystr list"
  rows :: "cell list list"

definition frame_wf :: "frame \<Rightarrow> bool" where
  "frame_wf df \<longleftrightarrow> (\<forall>r \<in> set (rows df). length r = length (columns df))"

text \<open>\<open>DataFrame.empty\<close>: no rows or no columns.\<close>

definition frame_empty :: "frame \<Rightarrow> bool" where
  "frame_empty df \<longleftrightarrow> rows df = [] \<or> columns df = []"

definition iloc00 :: "frame \<Rightarrow> exn + cell" where
  "iloc00 df =
     (case rows df of
        [] \<Rightarrow> Inl IndexError
      | r # _ \<Rightarrow> (case r of [] \<Rightarrow> Inl IndexError | c # _ \<Rightarrow> Inr c))"

subsection \<open>Sort keys\<close>

text \<open>The key of a cell for sorting: \<open>None\<close> for a missing value, a number for
  the numeric types (Python compares them by value), a string for a string.\<close>

datatype sort_key = KNum real | KStr pystr

fun cell_key :: "cell \<Rightarrow> sort_key option" where
  "cell_key CNone = None"
| "cell_key (CFloat NaN) = None"
| "cell_key (CFloat (Fin x)) = Some (KNum x)"
| "cell_key (CBool b) = Some (KNum (if b then 1 else 0))"
| "cell_key (CInt i) = Some (KNum (of_int i))"
| "cell_key (CDecimal d) = Some (KNum d)"
| "cell_key (CStr s) = Some (KStr s)"

text \<open>Keys are ordered numbers first, then strings; the sort is only run on
  keys of one kind (a mix raises \<open>TypeError\<close>), so the order between the
  kinds is never observed. The instance lets the library's \<open>sort_key\<close>,
  \<open>sorted\<close> and \<open>Max\<close> apply.\<close>

instantiation sort_key :: linorder
begin

fun less_eq_sort_key :: "sort_key \<Rightarrow> sort_key \<Rightarrow> bool" where
  "less_eq_sort_key (KNum a) (KNum b) \<longleftrightarrow> a \<le> b"
| "less_eq_sort_key (KStr a) (KStr b) \<longleftrightarrow> a \<le> b"
| "less_eq_sort_key (KNum _) (KStr _) \<longleftrightarrow> True"
| "less_eq_sort_key (KStr _) (KNum _) \<longleftrightarrow> False"

definition less_sort_key :: "sort_key \<Rightarrow> sort_key \<Rightarrow> bool" where
  "less_sort_key a b \<longleftrightarrow> a \<le> b \<and> \<not> b \<le> a"

instance
proof
  fix x y z :: sort_key
  show "x < y \<longleftrightarrow> x \<le> y \<and> \<not> y \<le> x" by (simp add: less_sort_key_def)
  show "x \<le> x" by (cases x) simp_all
  show "x \<le> y \<Longrightarrow> y \<le> z \<Longrightarrow> x \<le> z"
    by (cases x; cases y; cases z) auto
  show "x \<le> y \<Longrightarrow> y \<le> x \<Longrightarrow> x = y"
    by (cases x; cases y) auto
  show "x \<le> y \<or> y \<le> x"
    by (cases x; cases y) auto
qed

end

fun is_num_key :: "sort_key \<Rightarrow> bool" where
  "is_num_key (KNum _) = True"
| "is_num_key (KStr _) = False"

definition first_cell :: "cell list \<Rightarrow> cell" where
  "first_cell r = (case r of [] \<Rightarrow> CNone | c # _ \<Rightarrow> c)"

definition first_column :: "frame \<Rightarrow> cell list" where
  "first_column df = map first_cell (rows df)"

text \<open>The keyed rows: the rows whose first cell is not missing, with their key.\<close>

definition keyed_rows :: "cell list list \<Rightarrow> (sort_key \<times> cell list) list" where
  "keyed_rows rs = List.map_filter (\<lambda>r. map_option (\<lambda>k. (k, r)) (cell_key (first_cell r))) rs"

definition sort_rows_desc :: "cell list list \<Rightarrow> cell list list" where
  "sort_rows_desc rs =
     map snd (rev (sort_key fst (keyed_rows rs))) @ [r \<leftarrow> rs. cell_key (first_cell r) = None]"

definition keys_mixed :: "sort_key list \<Rightarrow> bool" where
  "keys_mixed ks \<longleftrightarrow> (\<exists>k \<in> set ks. is_num_key k) \<and> (\<exists>k \<in> set ks. \<not> is_num_key k)"

definition sort_values_desc :: "frame \<Rightarrow> exn + frame" where
  "sort_values_desc df =
     (case columns df of
        [] \<Rightarrow> Inl IndexError
      | c # cs \<Rightarrow>
          if c \<in> set cs then Inl ValueError
          else if keys_mixed (map fst (keyed_rows (rows df))) then Inl TypeError
          else Inr (df\<lparr>rows := sort_rows_desc (rows df)\<rparr>))"

subsection \<open>Rounding\<close>

text \<open>\<open>round(x, 2)\<close> on a float: the multiple of \<open>1/100\<close> nearest to the
  exact value, ties to the even multiple; NaN stays NaN.\<close>

definition round_half_even :: "real \<Rightarrow> int" where
  "round_half_even x =
     (let f = \<lfloor>x\<rfloor>; d = x - of_int f in
      if d < 1/2 then f else if 1/2 < d then f + 1 else if even f then f else f + 1)"

fun py_round2 :: "pyfloat \<Rightarrow> pyfloat" where
  "py_round2 (Fin x) = Fin (of_int (round_half_even (x * 100)) / 100)"
| "py_round2 NaN = NaN"

subsection \<open>Rounding lemmas\<close>

lemma round_half_even_nearest: "\<bar>x - of_int (round_half_even x)\<bar> \<le> 1/2"
proof -
  define f where "f = \<lfloor>x\<rfloor>"
  have f: "of_int f \<le> x" "x < of_int f + 1" unfolding f_def by linarith+
  show ?thesis
    unfolding round_half_even_def Let_def f_def [symmetric] using f by (auto simp: abs_if)
qed

lemma round_half_even_tie:
  "x - of_int \<lfloor>x\<rfloor> = 1/2 \<Longrightarrow> even (round_half_even x)"
  by (simp add: round_half_even_def Let_def)

lemma py_round2_Fin_bound:
  assumes "py_round2 (Fin x) = Fin y"
  shows "\<bar>y - x\<bar> \<le> 1/200" and "y * 100 \<in> \<int>"
proof -
  have y: "y = of_int (round_half_even (x * 100)) / 100" using assms by simp
  have "\<bar>x * 100 - of_int (round_half_even (x * 100))\<bar> \<le> 1/2"
    by (rule round_half_even_nearest)
  then show "\<bar>y - x\<bar> \<le> 1/200" unfolding y by (simp add: abs_if field_simps split: if_splits)
  show "y * 100 \<in> \<int>" unfolding y by simp
qed

subsection \<open>Reading the first cell\<close>

lemma iloc00_wf:
  assumes "frame_wf df" and "\<not> frame_empty df"
  shows "iloc00 df = Inr (first_cell (hd (rows df)))"
proof -
  obtain r rs where r: "rows df = r # rs" using assms(2) by (cases "rows df") (auto simp: frame_empty_def)
  have "length r = length (columns df)" using assms(1) r by (simp add: frame_wf_def)
  then have "r \<noteq> []" using assms(2) by (auto simp: frame_empty_def)
  then show ?thesis using r by (cases r) (simp_all add: iloc00_def first_cell_def)
qed

subsection \<open>The descending sort\<close>

lemma keyed_rows_iff:
  "(k, r) \<in> set (keyed_rows rs) \<longleftrightarrow> r \<in> set rs \<and> cell_key (first_cell r) = Some k"
  by (induction rs) (auto simp: keyed_rows_def List.map_filter_simps split: option.splits)

lemma mset_keyed_rows:
  "mset (map snd (keyed_rows rs)) = mset [r \<leftarrow> rs. cell_key (first_cell r) \<noteq> None]"
  by (induction rs) (auto simp: keyed_rows_def List.map_filter_simps split: option.splits)

text \<open>The sort only reorders the rows.\<close>

lemma mset_filter_split: "mset [x \<leftarrow> xs. P x] + mset [x \<leftarrow> xs. \<not> P x] = mset xs"
  by (induction xs) auto

lemma mset_sort_rows_desc: "mset (sort_rows_desc rs) = mset rs"
proof -
  have "mset (map snd (rev (sort_key fst (keyed_rows rs)))) = mset (map snd (keyed_rows rs))"
    by (simp add: mset_map)
  also have "\<dots> = mset [r \<leftarrow> rs. cell_key (first_cell r) \<noteq> None]"
    by (rule mset_keyed_rows)
  finally have "mset (sort_rows_desc rs) =
      mset [r \<leftarrow> rs. cell_key (first_cell r) \<noteq> None] + mset [r \<leftarrow> rs. \<not> cell_key (first_cell r) \<noteq> None]"
    by (simp add: sort_rows_desc_def)
  then show ?thesis by (simp only: mset_filter_split)
qed

lemma sorted_last_ge: "sorted ys \<Longrightarrow> y \<in> set ys \<Longrightarrow> y \<le> last ys"
  by (induction ys) (auto simp: sorted_append split: if_splits)

text \<open>When some row has a key, the first row of the sorted table carries the
  largest key.\<close>

lemma sort_rows_desc_hd:
  assumes "keyed_rows rs \<noteq> []"
  shows "\<exists>k. (k, hd (sort_rows_desc rs)) \<in> set (keyed_rows rs) \<and>
             (\<forall>k' r'. (k', r') \<in> set (keyed_rows rs) \<longrightarrow> k' \<le> k)"
proof -
  let ?xs = "sort_key fst (keyed_rows rs)"
  have ne: "?xs \<noteq> []" using assms by (metis length_0_conv length_sort)
  have set_xs: "set ?xs = set (keyed_rows rs)" by simp
  have sorted: "sorted (map fst ?xs)" by (rule sorted_sort_key)
  have hd: "hd (sort_rows_desc rs) = snd (last ?xs)"
    using ne by (simp add: sort_rows_desc_def hd_rev hd_map last_map)
  have mem: "last ?xs \<in> set (keyed_rows rs)" using ne set_xs last_in_set by metis
  have "k' \<le> fst (last ?xs)" if "(k', r') \<in> set (keyed_rows rs)" for k' r'
  proof -
    have "k' \<in> set (map fst ?xs)" using that set_xs by force
    with sorted have "k' \<le> last (map fst ?xs)" by (rule sorted_last_ge)
    with ne show ?thesis by (simp add: last_map)
  qed
  with hd mem show ?thesis by (intro exI [of _ "fst (last ?xs)"]) auto
qed

end
