(* ===== verification/Normalizer.thy ===== *)
theory Normalizer
  imports Frame
begin

text \<open>
  The answer normaliser and the query executor, \<open>src/src/rag.py\<close> lines
  152-169. \<open>normalize\<close> is the body of the \<open>try\<close> block after the query
  has returned a table: an empty table gives \<open>None\<close>; otherwise the first
  cell is read; a float is rounded to two decimals; a string makes the code
  re-sort the whole table by its first column in descending order and read the
  first cell again; any other value is returned as it is. Exceptions raised
  there are values \<open>Inl e\<close>. \<open>execute_and_normalize\<close> adds the query call
  and the \<open>except Exception\<close> clause, which turns every failure into
  \<open>None\<close> (the cell \<open>CNone\<close>). The data store is a parameter: a function
  from the query text to a table or an exception.
\<close>

definition normalize :: "frame \<Rightarrow> exn + cell" where
  "normalize result_df =
     (if frame_empty result_df then Inr CNone
      else case iloc00 result_df of
        Inl e \<Rightarrow> Inl e
      | Inr answer \<Rightarrow>
          (case answer of
             CFloat x \<Rightarrow> Inr (CFloat (py_round2 x))
           | CStr _ \<Rightarrow>
               (case sort_values_desc result_df of
                  Inl e \<Rightarrow> Inl e
                | Inr sorted_df \<Rightarrow> iloc00 sorted_df)
           | _ \<Rightarrow> Inr answer))"

type_synonym db_engine = "pystr \<Rightarrow> exn + frame"

definition execute_and_normalize :: "db_engine \<Rightarrow> pystr \<Rightarrow> cell" where
  "execute_and_normalize db_engine sql_query =
     (case db_engine sql_query of
        Inl _ \<Rightarrow> CNone
      | Inr result_df \<Rightarrow> (case normalize result_df of Inl _ \<Rightarrow> CNone | Inr answer \<Rightarrow> answer))"

subsection \<open>Helper facts\<close>

lemma cell_key_KStr: "cell_key c = Some (KStr m) \<longleftrightarrow> c = CStr m"
  by (cases c rule: cell_key.cases) auto

lemma first_cell_in_column:
  "r \<in> set (rows df) \<Longrightarrow> first_cell r \<in> set (first_column df)"
  by (simp add: first_column_def)

lemma normalize_nonempty:
  assumes "frame_wf df" and "\<not> frame_empty df"
  shows "normalize df =
    (case first_cell (hd (rows df)) of
       CFloat x \<Rightarrow> Inr (CFloat (py_round2 x))
     | CStr _ \<Rightarrow> (case sort_values_desc df of Inl e \<Rightarrow> Inl e | Inr sorted_df \<Rightarrow> iloc00 sorted_df)
     | c \<Rightarrow> Inr c)"
  using assms by (simp add: normalize_def iloc00_wf split: cell.split)

lemma sort_values_desc_ok:
  assumes "columns df = c # cs" and "c \<notin> set cs"
    and "\<not> keys_mixed (map fst (keyed_rows (rows df)))"
  shows "sort_values_desc df = Inr (df\<lparr>rows := sort_rows_desc (rows df)\<rparr>)"
  using assms by (simp add: sort_values_desc_def)

lemma sort_rows_desc_wf:
  assumes "frame_wf df" and "columns df \<noteq> []" and "keyed_rows (rows df) \<noteq> []"
  shows "iloc00 (df\<lparr>rows := sort_rows_desc (rows df)\<rparr>) = Inr (first_cell (hd (sort_rows_desc (rows df))))"
proof -
  have "mset (sort_rows_desc (rows df)) = mset (rows df)" by (rule mset_sort_rows_desc)
  then have set_eq: "set (sort_rows_desc (rows df)) = set (rows df)" by (metis set_mset_mset)
  have wf': "frame_wf (df\<lparr>rows := sort_rows_desc (rows df)\<rparr>)"
    using assms(1) set_eq by (simp add: frame_wf_def)
  have "rows df \<noteq> []" using assms(3) by (auto simp: keyed_rows_def)
  then have "sort_rows_desc (rows df) \<noteq> []" using set_eq by auto
  then have "\<not> frame_empty (df\<lparr>rows := sort_rows_desc (rows df)\<rparr>)"
    using assms(2) by (simp add: frame_empty_def)
  with wf' show ?thesis by (simp add: iloc00_wf)
qed

subsection \<open>The normaliser's contract\<close>

text \<open>C4: a query result with zero rows gives the answer None.\<close>

theorem normalize_zero_rows: "rows df = [] \<Longrightarrow> normalize df = Inr CNone"
  by (simp add: normalize_def frame_empty_def)

theorem normalize_zero_rows_witness:
  "rows \<lparr>columns = [''n''], rows = []\<rparr> = [] \<and> normalize \<lparr>columns = [''n''], rows = []\<rparr> = Inr CNone"
proof -
  have h: "rows \<lparr>columns = [''n''], rows = []\<rparr> = []" by simp
  show ?thesis using h normalize_zero_rows [OF h] by blast
qed

text \<open>C5: when the first cell is a finite float, the answer is a float that is a
  multiple of \<open>1/100\<close> within \<open>1/200\<close> of it (Python's \<open>round(x, 2)\<close>).\<close>

theorem normalize_float_rounds:
  assumes "frame_wf df" and "\<not> frame_empty df" and "first_cell (hd (rows df)) = CFloat (Fin x)"
  shows "\<exists>y. normalize df = Inr (CFloat (Fin y)) \<and> \<bar>y - x\<bar> \<le> 1/200 \<and> y * 100 \<in> \<int>"
proof -
  obtain y where y: "py_round2 (Fin x) = Fin y" using py_round2.simps(1) by blast
  have "normalize df = Inr (CFloat (Fin y))"
    using normalize_nonempty [OF assms(1,2)] assms(3) y by simp
  with py_round2_Fin_bound [OF y] show ?thesis by blast
qed

text \<open>The spec's example: a first cell of 3.14159 gives 3.14, derived from the
  bound alone.\<close>

theorem normalize_float_rounds_witness:
  "normalize \<lparr>columns = [''development''], rows = [[CFloat (Fin (314159 / 100000))]]\<rparr>
     = Inr (CFloat (Fin (314 / 100)))"
proof -
  let ?df = "\<lparr>columns = [''development''], rows = [[CFloat (Fin (314159 / 100000))]]\<rparr>"
  have h1: "frame_wf ?df" by (simp add: frame_wf_def)
  have h2: "\<not> frame_empty ?df" by (simp add: frame_empty_def)
  have h3: "first_cell (hd (rows ?df)) = CFloat (Fin (314159 / 100000))" by (simp add: first_cell_def)
  obtain y where y: "normalize ?df = Inr (CFloat (Fin y))"
      "\<bar>y - 314159 / 100000\<bar> \<le> 1/200" "y * 100 \<in> \<int>"
    using normalize_float_rounds [OF h1 h2 h3] by blast
  from y(3) obtain k where k: "y * 100 = of_int k" by (auto elim: Ints_cases)
  have "313659 / 100000 \<le> y" and "y \<le> 314659 / 100000"
    using y(2) unfolding abs_le_iff by linarith+
  then have "(313::real) < of_int k" and "of_int k < (315::real)"
    using k by linarith+
  then have "313 < k" and "k < 315" by simp_all
  then have "k = 314" by simp
  with k have "y = 314 / 100" by simp
  with y(1) show ?thesis by simp
qed

text \<open>C6: when the first cell is a string, the column label is unique and the
  first column holds no numbers, the answer is the largest string of the first
  column: the query's own row order is overridden.\<close>

theorem normalize_string_max:
  assumes wf: "frame_wf df" and ne: "\<not> frame_empty df"
    and first: "first_cell (hd (rows df)) = CStr a"
    and unique: "hd (columns df) \<notin> set (tl (columns df))"
    and strs: "\<forall>c \<in> set (first_column df). c = CNone \<or> c = CFloat NaN \<or> (\<exists>s. c = CStr s)"
  shows "\<exists>m. normalize df = Inr (CStr m) \<and> CStr m \<in> set (first_column df) \<and>
             (\<forall>s. CStr s \<in> set (first_column df) \<longrightarrow> s \<le> m)"
proof -
  let ?rs = "rows df"
  obtain c cs where cols: "columns df = c # cs" using ne by (cases "columns df") (auto simp: frame_empty_def)
  have str_key: "\<exists>s. k = KStr s" if "(k, r) \<in> set (keyed_rows ?rs)" for k r
  proof -
    have "r \<in> set ?rs" "cell_key (first_cell r) = Some k" using that by (auto simp: keyed_rows_iff)
    moreover have "first_cell r \<in> set (first_column df)" using \<open>r \<in> set ?rs\<close> by (rule first_cell_in_column)
    ultimately have "first_cell r = CNone \<or> first_cell r = CFloat NaN \<or> (\<exists>s. first_cell r = CStr s)"
      using strs by blast
    with \<open>cell_key (first_cell r) = Some k\<close> show ?thesis by auto
  qed
  have not_mixed: "\<not> keys_mixed (map fst (keyed_rows ?rs))"
    using str_key by (fastforce simp: keys_mixed_def)
  have hd_in: "hd ?rs \<in> set ?rs" using ne by (simp add: frame_empty_def)
  have "(KStr a, hd ?rs) \<in> set (keyed_rows ?rs)" using hd_in first by (simp add: keyed_rows_iff)
  then have keyed_ne: "keyed_rows ?rs \<noteq> []" by auto
  have sorted: "sort_values_desc df = Inr (df\<lparr>rows := sort_rows_desc ?rs\<rparr>)"
    using cols unique not_mixed by (simp add: sort_values_desc_ok)
  obtain k where k: "(k, hd (sort_rows_desc ?rs)) \<in> set (keyed_rows ?rs)"
      and kmax: "\<forall>k' r'. (k', r') \<in> set (keyed_rows ?rs) \<longrightarrow> k' \<le> k"
    using sort_rows_desc_hd [OF keyed_ne] by blast
  obtain m where m: "k = KStr m" using str_key [OF k] by blast
  have top: "first_cell (hd (sort_rows_desc ?rs)) = CStr m"
    using k m by (simp add: keyed_rows_iff cell_key_KStr)
  have "normalize df = Inr (CStr m)"
    using normalize_nonempty [OF wf ne] first sorted sort_rows_desc_wf [OF wf _ keyed_ne] cols top by simp
  moreover have "CStr m \<in> set (first_column df)"
    using k top by (metis first_cell_in_column keyed_rows_iff)
  moreover have "s \<le> m" if "CStr s \<in> set (first_column df)" for s
  proof -
    have "CStr s \<in> first_cell ` set ?rs" using that by (simp add: first_column_def)
    then obtain r where "r \<in> set ?rs" "first_cell r = CStr s" by (auto elim!: imageE)
    then have "(KStr s, r) \<in> set (keyed_rows ?rs)" by (simp add: keyed_rows_iff)
    with kmax m show ?thesis by fastforce
  qed
  ultimately show ?thesis by blast
qed

text \<open>The spec's example: rows \<open>alpha\<close>, \<open>zeta\<close>, \<open>mike\<close> in this order give
  \<open>zeta\<close>, derived from the maximum property alone.\<close>

theorem normalize_string_max_witness:
  "normalize \<lparr>columns = [''name''], rows = [[CStr ''alpha''], [CStr ''zeta''], [CStr ''mike'']]\<rparr>
     = Inr (CStr ''zeta'')"
proof -
  let ?df = "\<lparr>columns = [''name''], rows = [[CStr ''alpha''], [CStr ''zeta''], [CStr ''mike'']]\<rparr>"
  have col: "first_column ?df = [CStr ''alpha'', CStr ''zeta'', CStr ''mike'']"
    by (simp add: first_column_def first_cell_def)
  have h1: "frame_wf ?df" by (simp add: frame_wf_def)
  have h2: "\<not> frame_empty ?df" by (simp add: frame_empty_def)
  have h3: "first_cell (hd (rows ?df)) = CStr ''alpha''" by (simp add: first_cell_def)
  have h4: "hd (columns ?df) \<notin> set (tl (columns ?df))" by simp
  have h5: "\<forall>c \<in> set (first_column ?df). c = CNone \<or> c = CFloat NaN \<or> (\<exists>s. c = CStr s)"
    by (simp add: col)
  obtain m where m: "normalize ?df = Inr (CStr m)" "CStr m \<in> set (first_column ?df)"
      "\<forall>s. CStr s \<in> set (first_column ?df) \<longrightarrow> s \<le> m"
    using normalize_string_max [OF h1 h2 h3 h4 h5] by blast
  have "m \<in> {''alpha'', ''zeta'', ''mike''}" using m(2) col by auto
  moreover have "''zeta'' \<le> m" using m(3) col by simp
  ultimately have "m = ''zeta''" by auto
  with m(1) show ?thesis by simp
qed

subsection \<open>Error behaviour and the answer's provenance\<close>

lemma normalize_string_branch:
  assumes "frame_wf df" and "\<not> frame_empty df" and "first_cell (hd (rows df)) = CStr a"
  shows "normalize df = (case sort_values_desc df of Inl e \<Rightarrow> Inl e | Inr sorted_df \<Rightarrow> iloc00 sorted_df)"
  using normalize_nonempty [OF assms(1,2)] assms(3) by simp

text \<open>C18: when the answer is a string and the result's first column label
  occurs twice (a query such as \<open>SELECT name, name\<close>), pandas refuses to sort
  by an ambiguous label and the normaliser raises \<open>ValueError\<close>; the spec
  says this step has no error beyond the zero-row case.\<close>

theorem normalize_duplicate_label:
  assumes "frame_wf df" and "\<not> frame_empty df" and "first_cell (hd (rows df)) = CStr a"
    and "columns df = c # cs" and "c \<in> set cs"
  shows "normalize df = Inl ValueError"
  using normalize_string_branch [OF assms(1-3)] assms(4,5) by (simp add: sort_values_desc_def)

theorem normalize_duplicate_label_witness:
  "normalize \<lparr>columns = [''name'', ''name''], rows = [[CStr ''a'', CStr ''a'']]\<rparr> = Inl ValueError"
proof -
  let ?df = "\<lparr>columns = [''name'', ''name''], rows = [[CStr ''a'', CStr ''a'']]\<rparr>"
  have h1: "frame_wf ?df" by (simp add: frame_wf_def)
  have h2: "\<not> frame_empty ?df" by (simp add: frame_empty_def)
  have h3: "first_cell (hd (rows ?df)) = CStr ''a''" by (simp add: first_cell_def)
  have h4: "columns ?df = ''name'' # [''name'']" by simp
  have h5: "''name'' \<in> set [''name'']" by simp
  show ?thesis by (rule normalize_duplicate_label [OF h1 h2 h3 h4 h5])
qed

text \<open>C19: when the answer is a string but the first column also holds a
  number (an integer, a boolean, a decimal or a float), comparing the two
  kinds fails and the normaliser raises \<open>TypeError\<close>.\<close>

theorem normalize_mixed_column:
  assumes "frame_wf df" and "\<not> frame_empty df" and "first_cell (hd (rows df)) = CStr a"
    and "hd (columns df) \<notin> set (tl (columns df))"
    and "r \<in> set (rows df)" and "cell_key (first_cell r) = Some (KNum x)"
  shows "normalize df = Inl TypeError"
proof -
  have "hd (rows df) \<in> set (rows df)" using assms(2) by (simp add: frame_empty_def)
  then have "(KStr a, hd (rows df)) \<in> set (keyed_rows (rows df))"
    using assms(3) by (simp add: keyed_rows_iff)
  moreover have "(KNum x, r) \<in> set (keyed_rows (rows df))"
    using assms(5,6) by (simp add: keyed_rows_iff)
  ultimately have "keys_mixed (map fst (keyed_rows (rows df)))"
    unfolding keys_mixed_def by (metis fst_conv image_eqI is_num_key.simps list.set_map)
  moreover obtain c cs where "columns df = c # cs"
    using assms(2) by (cases "columns df") (auto simp: frame_empty_def)
  ultimately show ?thesis
    using normalize_string_branch [OF assms(1-3)] assms(4) by (simp add: sort_values_desc_def)
qed

theorem normalize_mixed_column_witness:
  "normalize \<lparr>columns = [''x''], rows = [[CStr ''a''], [CInt 3]]\<rparr> = Inl TypeError"
proof -
  let ?df = "\<lparr>columns = [''x''], rows = [[CStr ''a''], [CInt 3]]\<rparr>"
  have h1: "frame_wf ?df" by (simp add: frame_wf_def)
  have h2: "\<not> frame_empty ?df" by (simp add: frame_empty_def)
  have h3: "first_cell (hd (rows ?df)) = CStr ''a''" by (simp add: first_cell_def)
  have h4: "hd (columns ?df) \<notin> set (tl (columns ?df))" by simp
  have h5: "[CInt 3] \<in> set (rows ?df)" by simp
  have h6: "cell_key (first_cell [CInt 3]) = Some (KNum 3)" by (simp add: first_cell_def)
  show ?thesis by (rule normalize_mixed_column [OF h1 h2 h3 h4 h5 h6])
qed

text \<open>C20: any first cell that is neither a float nor a string (an integer, a
  boolean, a \<open>Decimal\<close>, a missing value) is the answer unchanged; in
  particular a \<open>Decimal\<close> (what MySQL returns for \<open>AVG\<close> and \<open>DECIMAL\<close>
  columns) is not rounded.\<close>

theorem normalize_other_unchanged:
  assumes "frame_wf df" and "\<not> frame_empty df" and "first_cell (hd (rows df)) = c"
    and "\<forall>x. c \<noteq> CFloat x" and "\<forall>s. c \<noteq> CStr s"
  shows "normalize df = Inr c"
  using normalize_nonempty [OF assms(1,2)] assms(3-5) by (cases c) simp_all

theorem normalize_other_unchanged_witness:
  "normalize \<lparr>columns = [''avg''], rows = [[CDecimal (314159 / 100000)]]\<rparr>
     = Inr (CDecimal (314159 / 100000))"
proof -
  let ?df = "\<lparr>columns = [''avg''], rows = [[CDecimal (314159 / 100000)]]\<rparr>"
  have h1: "frame_wf ?df" by (simp add: frame_wf_def)
  have h2: "\<not> frame_empty ?df" by (simp add: frame_empty_def)
  have h3: "first_cell (hd (rows ?df)) = CDecimal (314159 / 100000)" by (simp add: first_cell_def)
  have h4: "\<forall>x. CDecimal (314159 / 100000) \<noteq> CFloat x" by simp
  have h5: "\<forall>s. CDecimal (314159 / 100000) \<noteq> CStr s" by simp
  show ?thesis by (rule normalize_other_unchanged [OF h1 h2 h3 h4 h5])
qed

lemma iloc00_in_column: "iloc00 df = Inr a \<Longrightarrow> a \<in> set (first_column df)"
  by (auto simp: iloc00_def first_column_def first_cell_def split: list.splits)

lemma sort_values_desc_column:
  assumes "sort_values_desc df = Inr sorted_df"
  shows "set (first_column sorted_df) = set (first_column df)"
proof -
  have "sorted_df = df\<lparr>rows := sort_rows_desc (rows df)\<rparr>"
    using assms by (auto simp: sort_values_desc_def split: list.splits if_splits)
  moreover have "set (sort_rows_desc (rows df)) = set (rows df)"
    by (metis mset_sort_rows_desc set_mset_mset)
  ultimately show ?thesis by (simp add: first_column_def)
qed

text \<open>C17: every answer the normaliser returns comes from the table: it is
  \<open>None\<close>, a value of the first column, or the rounding of a float of the
  first column. No other value is ever made up.\<close>

theorem normalize_answer_from_table:
  assumes "normalize df = Inr a"
  shows "a = CNone \<or> a \<in> set (first_column df) \<or>
         (\<exists>x. a = CFloat (py_round2 x) \<and> CFloat x \<in> set (first_column df))"
proof (cases "frame_empty df")
  case True
  with assms show ?thesis by (simp add: normalize_def)
next
  case False
  show ?thesis
  proof (cases "iloc00 df")
    case (Inl e)
    with False assms show ?thesis by (simp add: normalize_def)
  next
    case (Inr c)
    then have c: "c \<in> set (first_column df)" by (rule iloc00_in_column)
    show ?thesis
    proof (cases "sort_values_desc df")
      case (Inl e)
      with False Inr assms c show ?thesis by (cases c) (auto simp: normalize_def)
    next
      case sorted: (Inr sorted_df)
      with False Inr assms c show ?thesis
        using iloc00_in_column sort_values_desc_column [OF sorted]
        by (cases c) (auto simp: normalize_def)
    qed
  qed
qed

theorem normalize_answer_from_table_witness:
  "normalize \<lparr>columns = [''n''], rows = [[CInt 7]]\<rparr> = Inr (CInt 7) \<and>
   CInt 7 \<in> set (first_column \<lparr>columns = [''n''], rows = [[CInt 7]]\<rparr>)"
proof -
  have n: "normalize \<lparr>columns = [''n''], rows = [[CInt 7]]\<rparr> = Inr (CInt 7)"
    by (simp add: normalize_def frame_empty_def iloc00_def)
  have "CInt 7 \<noteq> CNone" "\<forall>x. CInt 7 \<noteq> CFloat (py_round2 x)" by simp_all
  with normalize_answer_from_table [OF n] n show ?thesis by auto
qed

end
