(* ===== verification/Pipeline.thy ===== *)
theory Pipeline
  imports Extractor Prompt Normalizer
begin

text \<open>
  The whole function \<open>answer_gen\<close> of \<open>src/src/rag.py\<close> (lines 7-169), composed
  from the components: the prompt (theory Prompt), one request to the
  generation service (lines 129-134), the extractor (theory Extractor), the
  three diagnostic prints (lines 149-151), the query and the normaliser inside
  the \<open>try\<close> block (theory Normalizer). The two services are parameters: the
  generation service maps a request to the message content (\<open>None\<close> when the
  reply has no content) or an exception; the data store maps a query to a table
  or an exception. \<open>answer_gen\<close> returns the trace of observable events and
  the outcome: an exception that escapes, or the answer.

  The second half is the spec's life cycle of one invocation as a step
  relation on stages, \<open>START \<rightarrow> PromptBuilt \<rightarrow> Generated \<rightarrow> Extracted \<rightarrow>
  Executed \<rightarrow> END\<close>, with the function \<open>next_stage\<close> that computes the
  successor of a stage and the proof that \<open>answer_gen\<close> implements the relation.
\<close>

subsection \<open>The request to the generation service\<close>

record message =
  role :: pystr
  content :: pystr

record chat_request =
  model :: pystr
  temperature :: int
  messages :: "message list"

text \<open>\<open>chat(model=model_name, options={"temperature": 0},
  messages=[{'role': 'user', 'content': prompt}])\<close>.\<close>

definition make_request :: "pystr \<Rightarrow> pystr \<Rightarrow> chat_request" where
  "make_request model_name p =
     \<lparr>model = model_name, temperature = 0, messages = [\<lparr>role = ''user'', content = p\<rparr>]\<rparr>"

text \<open>The generation service: \<open>response.message.content\<close> of the reply, which
  the client library types as an optional string, or the exception raised by
  the call.\<close>

type_synonym chat_service = "chat_request \<Rightarrow> exn + pystr option"

subsection \<open>Observable events\<close>

text \<open>\<open>print(a, b)\<close> writes both arguments separated by a space and ends the line.\<close>

definition py_print2 :: "pystr \<Rightarrow> pystr \<Rightarrow> pystr" where
  "py_print2 a b = a @ '' '' @ b @ NL"

datatype event = Request chat_request | Output pystr | Execute pystr

fun is_request :: "event \<Rightarrow> bool" where
  "is_request (Request _) = True"
| "is_request _ = False"

fun is_execute :: "event \<Rightarrow> bool" where
  "is_execute (Execute _) = True"
| "is_execute _ = False"

subsection \<open>The pipeline\<close>

text \<open>\<open>re.search\<close> on a content of \<open>None\<close> raises \<open>TypeError\<close>, outside the
  \<open>try\<close> block, so it escapes like a failure of the service. Everything from
  the query on is inside the \<open>try\<close> block: \<open>execute_and_normalize\<close>.\<close>

definition answer_gen :: "chat_service \<Rightarrow> db_engine \<Rightarrow> pystr \<Rightarrow> pystr \<Rightarrow> event list \<times> (exn + cell)" where
  "answer_gen chat db_engine textual_question model_name =
     (let p = prompt textual_question;
          req = make_request model_name p
      in case chat req of
           Inl e \<Rightarrow> ([Request req], Inl e)
         | Inr None \<Rightarrow> ([Request req], Inl TypeError)
         | Inr (Some raw) \<Rightarrow>
             (case extract_sql raw of
                Inl e \<Rightarrow> ([Request req], Inl e)
              | Inr sql_query \<Rightarrow>
                  ([Request req,
                    Output (py_print2 (''PROMPT:'' @ NL) p),
                    Output (py_print2 (''RAW RESPONSE:'' @ NL) raw),
                    Output (py_print2 (''PARSED SQL QUERY:'' @ NL) sql_query),
                    Execute sql_query],
                   Inr (execute_and_normalize db_engine sql_query))))"

subsection \<open>The life cycle of one invocation\<close>

text \<open>The inputs of one invocation.\<close>

record env =
  service :: chat_service
  store :: db_engine
  question :: pystr
  model_name :: pystr

datatype stage =
    Start
  | PromptBuilt pystr
  | Generated pystr
  | Extracted pystr
  | Executed "exn + frame"
  | Done cell
  | Failed exn

inductive pipeline_step :: "env \<Rightarrow> stage \<Rightarrow> stage \<Rightarrow> bool" for E :: env where
  build: "pipeline_step E Start (PromptBuilt (prompt (question E)))"
| generate: "service E (make_request (model_name E) p) = Inr (Some raw) \<Longrightarrow>
    pipeline_step E (PromptBuilt p) (Generated raw)"
| generate_raises: "service E (make_request (model_name E) p) = Inl e \<Longrightarrow>
    pipeline_step E (PromptBuilt p) (Failed e)"
| no_content: "service E (make_request (model_name E) p) = Inr None \<Longrightarrow>
    pipeline_step E (PromptBuilt p) (Failed TypeError)"
| extract_query: "extract_sql raw = Inr q \<Longrightarrow> pipeline_step E (Generated raw) (Extracted q)"
| extract_raises: "extract_sql raw = Inl e \<Longrightarrow> pipeline_step E (Generated raw) (Failed e)"
| execute: "pipeline_step E (Extracted q) (Executed (store E q))"
| execution_failed: "pipeline_step E (Executed (Inl e)) (Done CNone)"
| normalized: "normalize df = Inr a \<Longrightarrow> pipeline_step E (Executed (Inr df)) (Done a)"
| normalize_raises: "normalize df = Inl e \<Longrightarrow> pipeline_step E (Executed (Inr df)) (Done CNone)"

fun final_stage :: "stage \<Rightarrow> bool" where
  "final_stage (Done _) = True"
| "final_stage (Failed _) = True"
| "final_stage _ = False"

text \<open>The successor of a stage, computed.\<close>

fun next_stage :: "env \<Rightarrow> stage \<Rightarrow> stage option" where
  "next_stage E Start = Some (PromptBuilt (prompt (question E)))"
| "next_stage E (PromptBuilt p) =
     (case service E (make_request (model_name E) p) of
        Inl e \<Rightarrow> Some (Failed e)
      | Inr None \<Rightarrow> Some (Failed TypeError)
      | Inr (Some raw) \<Rightarrow> Some (Generated raw))"
| "next_stage E (Generated raw) =
     (case extract_sql raw of Inl e \<Rightarrow> Some (Failed e) | Inr q \<Rightarrow> Some (Extracted q))"
| "next_stage E (Extracted q) = Some (Executed (store E q))"
| "next_stage E (Executed (Inl e)) = Some (Done CNone)"
| "next_stage E (Executed (Inr df)) =
     Some (Done (case normalize df of Inl _ \<Rightarrow> CNone | Inr a \<Rightarrow> a))"
| "next_stage E (Done _) = None"
| "next_stage E (Failed _) = None"

text \<open>The outcome of \<open>answer_gen\<close> as a final stage.\<close>

fun outcome_stage :: "exn + cell \<Rightarrow> stage" where
  "outcome_stage (Inl e) = Failed e"
| "outcome_stage (Inr a) = Done a"

text \<open>What holds of each stage a run reaches: the prompt is the question's,
  the generated text is the service's reply to it, the query is trimmed, and a
  failure is the service's own exception or the \<open>TypeError\<close> of a missing
  content.\<close>

fun stage_inv :: "env \<Rightarrow> stage \<Rightarrow> bool" where
  "stage_inv E (PromptBuilt p) \<longleftrightarrow> p = prompt (question E)"
| "stage_inv E (Generated raw) \<longleftrightarrow>
     service E (make_request (model_name E) (prompt (question E))) = Inr (Some raw)"
| "stage_inv E (Extracted q) \<longleftrightarrow> py_strip q = q"
| "stage_inv E (Failed e) \<longleftrightarrow>
     service E (make_request (model_name E) (prompt (question E))) = Inl e \<or>
     (service E (make_request (model_name E) (prompt (question E))) = Inr None \<and> e = TypeError)"
| "stage_inv E _ \<longleftrightarrow> True"

inductive_cases step_StartE [elim!]: "pipeline_step E Start t"
inductive_cases step_PromptBuiltE [elim!]: "pipeline_step E (PromptBuilt p) t"
inductive_cases step_GeneratedE [elim!]: "pipeline_step E (Generated raw) t"
inductive_cases step_ExtractedE [elim!]: "pipeline_step E (Extracted q) t"
inductive_cases step_ExecutedE [elim!]: "pipeline_step E (Executed r) t"
inductive_cases step_DoneE [elim!]: "pipeline_step E (Done a) t"
inductive_cases step_FailedE [elim!]: "pipeline_step E (Failed e) t"

subsection \<open>The relation and the function agree\<close>

lemma pipeline_step_next: "pipeline_step E s t \<longleftrightarrow> next_stage E s = Some t"
proof
  assume "pipeline_step E s t"
  then show "next_stage E s = Some t" by (induction rule: pipeline_step.induct) simp_all
next
  assume "next_stage E s = Some t"
  then show "pipeline_step E s t"
    by (cases "(E, s)" rule: next_stage.cases)
       (auto intro: pipeline_step.intros split: sum.splits option.splits)
qed

lemma pipeline_step_deterministic: "pipeline_step E s t \<Longrightarrow> pipeline_step E s u \<Longrightarrow> t = u"
  by (simp add: pipeline_step_next)

lemma final_stage_stuck: "final_stage s \<Longrightarrow> \<not> pipeline_step E s t"
  by (cases s) auto

subsection \<open>The branches of \<open>answer_gen\<close>\<close>

lemma answer_gen_raises:
  "chat (make_request m (prompt q)) = Inl e \<Longrightarrow>
   answer_gen chat db_engine q m = ([Request (make_request m (prompt q))], Inl e)"
  by (simp add: answer_gen_def Let_def)

lemma answer_gen_no_content:
  "chat (make_request m (prompt q)) = Inr None \<Longrightarrow>
   answer_gen chat db_engine q m = ([Request (make_request m (prompt q))], Inl TypeError)"
  by (simp add: answer_gen_def Let_def)

lemma answer_gen_generated:
  assumes "chat (make_request m (prompt q)) = Inr (Some raw)" and "extract_sql raw = Inr s"
  shows "answer_gen chat db_engine q m =
    ([Request (make_request m (prompt q)),
      Output (py_print2 (''PROMPT:'' @ NL) (prompt q)),
      Output (py_print2 (''RAW RESPONSE:'' @ NL) raw),
      Output (py_print2 (''PARSED SQL QUERY:'' @ NL) s),
      Execute s],
     Inr (execute_and_normalize db_engine s))"
  using assms by (simp add: answer_gen_def Let_def)

text \<open>The three ways an invocation can go, by what the service returns.\<close>

lemma answer_gen_cases:
  obtains (raises) e where "chat (make_request m (prompt q)) = Inl e"
      and "answer_gen chat db_engine q m = ([Request (make_request m (prompt q))], Inl e)"
    | (no_content) "chat (make_request m (prompt q)) = Inr None"
      and "answer_gen chat db_engine q m = ([Request (make_request m (prompt q))], Inl TypeError)"
    | (generated) raw s where "chat (make_request m (prompt q)) = Inr (Some raw)"
      and "extract_sql raw = Inr s"
      and "answer_gen chat db_engine q m =
        ([Request (make_request m (prompt q)),
          Output (py_print2 (''PROMPT:'' @ NL) (prompt q)),
          Output (py_print2 (''RAW RESPONSE:'' @ NL) raw),
          Output (py_print2 (''PARSED SQL QUERY:'' @ NL) s),
          Execute s],
         Inr (execute_and_normalize db_engine s))"
proof (cases "chat (make_request m (prompt q))")
  case (Inl e)
  then show ?thesis using that(1) answer_gen_raises by blast
next
  case (Inr r)
  show ?thesis
  proof (cases r)
    case None
    then show ?thesis using Inr that(2) answer_gen_no_content by blast
  next
    case (Some raw)
    obtain s where "extract_sql raw = Inr s" using extract_sql_closed_form by blast
    then show ?thesis using Inr Some that(3) answer_gen_generated by blast
  qed
qed

subsection \<open>Runs of the life cycle\<close>

lemma step_then_run:
  "pipeline_step E s t \<Longrightarrow> (pipeline_step E ^^ n) t u \<Longrightarrow> (pipeline_step E ^^ Suc n) s u"
  by (rule relpowp_Suc_I2)

lemma execute_and_normalize_stage:
  "pipeline_step E (Executed (store E s)) (Done (execute_and_normalize (store E) s))"
  by (auto simp: execute_and_normalize_def intro: pipeline_step.intros split: sum.splits)

lemma run_to_outcome:
  "\<exists>n \<le> 5. (pipeline_step E ^^ n) Start
     (outcome_stage (snd (answer_gen (service E) (store E) (question E) (model_name E))))"
proof (cases rule: answer_gen_cases [of "service E" "model_name E" "question E" "store E"])
  case (raises e)
  have "(pipeline_step E ^^ Suc (Suc 0)) Start (Failed e)"
    by (rule step_then_run [OF pipeline_step.build [of E]], rule step_then_run)
       (use raises(1) in \<open>auto intro: pipeline_step.generate_raises\<close>)
  with raises(2) show ?thesis by (intro exI [of _ "Suc (Suc 0)"]) simp
next
  case no_content
  have "(pipeline_step E ^^ Suc (Suc 0)) Start (Failed TypeError)"
    by (rule step_then_run [OF pipeline_step.build [of E]], rule step_then_run)
       (use no_content(1) in \<open>auto intro: pipeline_step.no_content\<close>)
  with no_content(2) show ?thesis by (intro exI [of _ "Suc (Suc 0)"]) simp
next
  case (generated raw s)
  let ?a = "execute_and_normalize (store E) s"
  have "(pipeline_step E ^^ Suc (Suc (Suc (Suc (Suc 0))))) Start (Done ?a)"
    apply (rule step_then_run [OF pipeline_step.build [of E]])
    apply (rule step_then_run [OF pipeline_step.generate [OF generated(1)]])
    apply (rule step_then_run [OF pipeline_step.extract_query [OF generated(2)]])
    apply (rule step_then_run [OF pipeline_step.execute [of E]])
    apply (rule step_then_run [OF execute_and_normalize_stage [of E]])
    apply simp
    done
  with generated(3) show ?thesis by (intro exI [of _ "Suc (Suc (Suc (Suc (Suc 0))))"]) simp
qed

lemma final_outcome_stage [simp]: "final_stage (outcome_stage r)"
  by (cases r) simp_all

lemma reaches_outcome:
  "(pipeline_step E)\<^sup>*\<^sup>* Start (outcome_stage (snd (answer_gen (service E) (store E) (question E) (model_name E))))"
proof -
  obtain n where "(pipeline_step E ^^ n) Start
      (outcome_stage (snd (answer_gen (service E) (store E) (question E) (model_name E))))"
    using run_to_outcome by blast
  then show ?thesis by (rule relpowp_imp_rtranclp)
qed

subsection \<open>The pipeline's contract\<close>

text \<open>C9: \<open>answer_gen\<close> implements the spec's life cycle: the final stage a run
  of the step relation reaches from START is exactly the outcome of
  \<open>answer_gen\<close>, the answer as \<open>Done\<close> or the escaping exception as \<open>Failed\<close>.\<close>

theorem answer_gen_refines_life_cycle:
  "((pipeline_step E)\<^sup>*\<^sup>* Start t \<and> final_stage t) \<longleftrightarrow>
   t = outcome_stage (snd (answer_gen (service E) (store E) (question E) (model_name E)))"
proof
  assume "(pipeline_step E)\<^sup>*\<^sup>* Start t \<and> final_stage t"
  moreover have "\<And>s t u. pipeline_step E s t \<Longrightarrow> pipeline_step E s u \<Longrightarrow> t = u"
    by (rule pipeline_step_deterministic)
  moreover have "\<And>s t. final_stage s \<Longrightarrow> \<not> pipeline_step E s t"
    by (rule final_stage_stuck)
  ultimately show "t = outcome_stage (snd (answer_gen (service E) (store E) (question E) (model_name E)))"
    using deterministic_final_unique [of "pipeline_step E" final_stage] reaches_outcome [of E]
    by (metis final_outcome_stage)
next
  assume "t = outcome_stage (snd (answer_gen (service E) (store E) (question E) (model_name E)))"
  then show "(pipeline_step E)\<^sup>*\<^sup>* Start t \<and> final_stage t" using reaches_outcome by simp
qed

text \<open>C10: every stage a run reaches satisfies \<open>stage_inv\<close>: in particular the query
  handed to the data store is always trimmed, and a run only fails with the
  generation service's exception or with the \<open>TypeError\<close> of a reply without
  content.\<close>

theorem life_cycle_invariant:
  "(pipeline_step E)\<^sup>*\<^sup>* Start t \<Longrightarrow> stage_inv E t"
proof (induction rule: rtranclp_induct)
  case base
  show ?case by simp
next
  case (step s t)
  from step.hyps(2) step.IH show ?case
    by (cases rule: pipeline_step.cases)
       (auto dest: extract_sql_trimmed)
qed

theorem life_cycle_invariant_witness:
  "(pipeline_step \<lparr>service = \<lambda>_. Inl (GenerationError ''down''), store = \<lambda>_. Inl (QueryError ''unused''),
      question = ''q'', model_name = ''m''\<rparr>)\<^sup>*\<^sup>* Start (Failed (GenerationError ''down'')) \<and>
   stage_inv \<lparr>service = \<lambda>_. Inl (GenerationError ''down''), store = \<lambda>_. Inl (QueryError ''unused''),
      question = ''q'', model_name = ''m''\<rparr> (Failed (GenerationError ''down''))"
proof -
  let ?E = "\<lparr>service = \<lambda>_. Inl (GenerationError ''down''), store = \<lambda>_. Inl (QueryError ''unused''),
      question = ''q'', model_name = ''m''\<rparr>"
  have s1: "pipeline_step ?E Start (PromptBuilt (prompt ''q''))"
    using pipeline_step.build [of ?E] by simp
  have s2: "pipeline_step ?E (PromptBuilt (prompt ''q'')) (Failed (GenerationError ''down''))"
    by (rule pipeline_step.generate_raises) simp
  have r: "(pipeline_step ?E)\<^sup>*\<^sup>* Start (Failed (GenerationError ''down''))"
    using s1 s2 by (meson converse_rtranclp_into_rtranclp rtranclp.rtrancl_refl)
  show ?thesis using r life_cycle_invariant [OF r] by blast
qed

text \<open>C8: the only exceptions that escape \<open>answer_gen\<close> are the generation
  service's own and the \<open>TypeError\<close> of a reply without content;
  extraction, execution and normalisation never raise to the caller.\<close>

theorem answer_gen_escapes_only_generation:
  assumes "snd (answer_gen chat db_engine q m) = Inl e"
  shows "chat (make_request m (prompt q)) = Inl e \<or>
         (chat (make_request m (prompt q)) = Inr None \<and> e = TypeError)"
  using assms by (cases rule: answer_gen_cases [of chat m q db_engine]) simp_all

theorem answer_gen_escapes_only_generation_witness:
  "snd (answer_gen (\<lambda>_. Inr None) (\<lambda>_. Inl (QueryError ''unused'')) ''q'' ''m'') = Inl TypeError \<and>
   (\<lambda>_. Inr None :: exn + pystr option) (make_request ''m'' (prompt ''q'')) = Inr None"
proof -
  have h: "snd (answer_gen (\<lambda>_. Inr None) (\<lambda>_. Inl (QueryError ''unused'')) ''q'' ''m'') = Inl TypeError"
    by (simp add: answer_gen_no_content)
  show ?thesis using answer_gen_escapes_only_generation [OF h] h by simp
qed

text \<open>C7: a query that raises in the data store gives the answer \<open>None\<close>, and no
  exception escapes (the spec's execution-failure example).\<close>

theorem answer_gen_execution_failure:
  assumes "chat (make_request m (prompt q)) = Inr (Some raw)" and "extract_sql raw = Inr s"
    and "db_engine s = Inl e"
  shows "snd (answer_gen chat db_engine q m) = Inr CNone"
  using answer_gen_generated [of chat m q raw s db_engine, OF assms(1,2)] assms(3)
  by (simp add: execute_and_normalize_def)

theorem answer_gen_execution_failure_witness:
  "snd (answer_gen (\<lambda>_. Inr (Some ''SELECT x FROM t'')) (\<lambda>_. Inl (QueryError ''Unknown column''))
      ''q'' ''m'') = Inr CNone"
proof -
  have h1: "(\<lambda>_. Inr (Some ''SELECT x FROM t'') :: exn + pystr option) (make_request ''m'' (prompt ''q''))
      = Inr (Some ''SELECT x FROM t'')" by simp
  have h2: "extract_sql ''SELECT x FROM t'' = Inr ''SELECT x FROM t''" by code_simp
  have h3: "(\<lambda>_. Inl (QueryError ''Unknown column'') :: exn + frame) ''SELECT x FROM t''
      = Inl (QueryError ''Unknown column'')" by simp
  show ?thesis by (rule answer_gen_execution_failure [OF h1 h2 h3])
qed

text \<open>C14: every invocation sends exactly one request to the generation
  service: the given model, temperature 0, and a single user message whose
  content is the prompt.\<close>

theorem answer_gen_single_request:
  "filter is_request (fst (answer_gen chat db_engine q m)) =
     [Request \<lparr>model = m, temperature = 0, messages = [\<lparr>role = ''user'', content = prompt q\<rparr>]\<rparr>]"
  by (cases rule: answer_gen_cases [of chat m q db_engine]) (simp_all add: make_request_def)

text \<open>C15: at most one query is run, and the query run is exactly what the
  extractor made of the service's reply; when the service fails, nothing is
  run.\<close>

theorem answer_gen_executes_extracted:
  "(Execute s \<in> set (fst (answer_gen chat db_engine q m)) \<longleftrightarrow>
     (\<exists>raw. chat (make_request m (prompt q)) = Inr (Some raw) \<and> extract_sql raw = Inr s)) \<and>
   length (filter is_execute (fst (answer_gen chat db_engine q m))) \<le> 1"
  by (cases rule: answer_gen_cases [of chat m q db_engine]) auto

text \<open>C16: the query is the last event of an invocation, and it is printed
  before it is run, so a query that hangs the data store has been logged. The
  witness runs an empty query: the spec's edge case of an empty extraction,
  which is still handed to the data store.\<close>

theorem answer_gen_prints_before_execute:
  assumes "Execute s \<in> set (fst (answer_gen chat db_engine q m))"
  shows "last (fst (answer_gen chat db_engine q m)) = Execute s \<and>
         Output (py_print2 (''PARSED SQL QUERY:'' @ NL) s) \<in> set (butlast (fst (answer_gen chat db_engine q m)))"
  using assms by (cases rule: answer_gen_cases [of chat m q db_engine]) auto

theorem answer_gen_prints_before_execute_witness:
  "Execute [] \<in> set (fst (answer_gen (\<lambda>_. Inr (Some [])) (\<lambda>_. Inl (QueryError ''empty query'')) ''q'' ''m'')) \<and>
   last (fst (answer_gen (\<lambda>_. Inr (Some [])) (\<lambda>_. Inl (QueryError ''empty query'')) ''q'' ''m'')) = Execute []"
proof -
  have e: "extract_sql [] = Inr []" by code_simp
  have h: "Execute [] \<in> set (fst (answer_gen (\<lambda>_. Inr (Some [])) (\<lambda>_. Inl (QueryError ''empty query'')) ''q'' ''m''))"
    using answer_gen_generated [of "\<lambda>_. Inr (Some [])" "''m''" "''q''" "[]" "[]", OF _ e] by simp
  show ?thesis using answer_gen_prints_before_execute [OF h] h by blast
qed

end
