(* ===== verification/Spec2Isabelle.thy ===== *)
theory Spec2Isabelle
  imports Pipeline
begin

text \<open>
  A verification model of the question-to-SQL pipeline of the repository: the
  single function \<open>answer_gen\<close> of \<open>src/src/rag.py\<close>. It builds a prompt from a
  fixed schema text, four worked examples and the question (lines 8-127);
  sends it to a text-generation service (lines 129-134); extracts a SQL query
  from the reply (lines 137-144); prints three diagnostics (lines 149-151);
  runs the query on a data store and reduces the result table to one answer
  (lines 152-169), turning every failure of that last part into \<open>None\<close>.

  Theories, in the order of the data flow:
  \<^item> Prelude: the exceptions the code can raise (\<open>exn\<close>), Python slicing and
    substring search (\<open>slice\<close>, \<open>occurs_at\<close>, \<open>find_from\<close>, \<open>contains\<close>), the
    first success among alternatives (\<open>first_some\<close>), and the fact that a
    deterministic step relation reaches at most one final state.
  \<^item> PyStr: the \<open>str\<close> methods the extractor calls, after CPython
    (\<open>strip\<close>, \<open>splitlines\<close>, \<open>startswith\<close>, \<open>"\n".join\<close>), on code points 0 to
    255; shape lemmas for \<open>strip\<close>, how \<open>splitlines\<close> splits at a \<open>\n\<close>, and
    that \<open>join\<close> undoes it on texts with \<open>\n\<close> breaks only.
  \<^item> Regex: the backtracking semantics of
    \<open>re.search(r"```sql\s*(.*?)\s*```", text, re.DOTALL)\<close> (line 137) as a
    matcher over pattern nodes (\<open>match_at\<close>, \<open>re_search\<close>, \<open>group1\<close>), and the
    proof that on this pattern it computes the closed form \<open>fence_block\<close>.
  \<^item> Extractor: lines 137-144, \<open>extract_sql\<close> with the primary path and the
    line-filtering fallback \<open>fallback_sql\<close>, and the spec's extraction
    properties.
  \<^item> Prompt: the two literals \<open>schema\<close> and \<open>few_shot_example\<close>, transcribed line
    by line, and the f-string \<open>prompt\<close> fragment by fragment.
  \<^item> Frame and Normalizer: the pandas calls the code makes on the result
    (\<open>empty\<close>, \<open>iloc[0, 0]\<close>, \<open>sort_values(columns[0], ascending=False)\<close> with
    its \<open>ValueError\<close> on a duplicated label and \<open>TypeError\<close> on mixed types,
    Python's \<open>round(x, 2)\<close>), the normaliser \<open>normalize\<close> (lines 155-167) and the
    \<open>try\<close>/\<open>except\<close> around the query, \<open>execute_and_normalize\<close>.
  \<^item> Pipeline: \<open>answer_gen\<close> itself, returning the trace of observable events
    (the request, the prints, the query) and the outcome; and the spec's
    life cycle START, PromptBuilt, Generated, Extracted, Executed, END as the
    inductive relation \<open>pipeline_step\<close>, with its computed successor
    \<open>next_stage\<close>.
  \<^item> This theory: the end-to-end property that composes extractor, executor
    and normaliser.

  What the lemma groups show: the extractor's contract (one fenced block gives
  its trimmed interior, no fence gives the trimmed text, it never raises), the
  extractor's failures on replies the spec does not foresee (a word glued to
  the opening marker leaks into the query; an unclosed block, the format the
  worked examples teach, keeps the prose before it in the query), the
  equivalence of the backtracking search with the closed form, the prompt's
  layout, the normaliser's branches (zero rows, rounding bound,
  the string maximum, the errors the spec does not mention), the pipeline's
  error discipline (only generation failures escape, execution failures give
  \<open>None\<close>), its trace (one request at temperature 0, one query, printed
  before it runs), and that \<open>answer_gen\<close> refines the life cycle, every
  reachable stage of which keeps the invariant \<open>stage_inv\<close>.

  Choices and bounds. No loop of the program is unbounded: \<open>splitlines\<close> is a
  \<open>function\<close> terminating on the length of the text, the regular-expression
  matcher recurses on the pattern, and the life cycle has no loop (the two
  services are total functions of the model, so a hanging service, which the
  spec says hangs the pipeline, is not represented); no fuel is needed. Floats are exact reals and \<open>round\<close> is round-half-even
  of the exact value; the binary representation of floats (which makes
  \<open>round(2.675, 2)\<close> give 2.67) is not modelled. Character classes follow
  CPython for code points 0 to 255.

  Not modelled: the text-generation model and the data store (external
  services: they are parameters, functions from the request or query to a
  result or an exception); the order among rows with equal sort keys (it does
  not change the answer, whose key is the largest); Python values other than
  None, bool, int, float, \<open>Decimal\<close> and str in a result; the text the
  prints write beyond the events of the trace.
\<close>

section \<open>End to end\<close>

text \<open>C12: end to end, when the generation service replies with one well-formed
  fenced block (prose before it opening no block, anything after it), the
  query run is the block's trimmed interior and the answer is what the
  normaliser makes of its result; whatever the prompt or the model.\<close>

theorem answer_gen_single_block:
  assumes "chat (make_request m (prompt q)) = Inr (Some (pre @ fence_open @ body @ fence_close @ post))"
    and "\<not> contains fence_open pre" and "\<not> contains fence_close (body @ ''``'')"
  shows "Execute (py_strip body) \<in> set (fst (answer_gen chat db_engine q m)) \<and>
         snd (answer_gen chat db_engine q m) = Inr (execute_and_normalize db_engine (py_strip body))"
proof -
  have "extract_sql (pre @ fence_open @ body @ fence_close @ post) = Inr (py_strip body)"
    using fence_block_single [OF assms(2,3)] by (simp add: extract_sql_closed_form)
  from answer_gen_generated [of chat m q "pre @ fence_open @ body @ fence_close @ post"
      "py_strip body" db_engine, OF assms(1) this]
  show ?thesis by simp
qed

theorem answer_gen_single_block_witness:
  "Execute ''SELECT 1;'' \<in> set (fst (answer_gen (\<lambda>_. Inr (Some (''Here it is:'' @ NL @ fence_open @ NL @ ''SELECT 1;'' @ NL @ fence_close)))
      (\<lambda>_. Inr \<lparr>columns = [''1''], rows = [[CInt 1]]\<rparr>) ''q'' ''m'')) \<and>
   snd (answer_gen (\<lambda>_. Inr (Some (''Here it is:'' @ NL @ fence_open @ NL @ ''SELECT 1;'' @ NL @ fence_close)))
      (\<lambda>_. Inr \<lparr>columns = [''1''], rows = [[CInt 1]]\<rparr>) ''q'' ''m'') = Inr (CInt 1)"
proof -
  let ?chat = "\<lambda>_. Inr (Some (''Here it is:'' @ NL @ fence_open @ NL @ ''SELECT 1;'' @ NL @ fence_close))
      :: exn + pystr option"
  let ?db = "\<lambda>_. Inr \<lparr>columns = [''1''], rows = [[CInt 1]]\<rparr> :: exn + frame"
  have h1: "?chat (make_request ''m'' (prompt ''q'')) =
      Inr (Some ((''Here it is:'' @ NL) @ fence_open @ (NL @ ''SELECT 1;'' @ NL) @ fence_close @ []))"
    by simp
  have h2: "\<not> contains fence_open (''Here it is:'' @ NL)" by (simp add: fence_open_def)
  have h3: "\<not> contains fence_close ((NL @ ''SELECT 1;'' @ NL) @ ''``'')" by (simp add: fence_close_def)
  have strip: "py_strip (NL @ ''SELECT 1;'' @ NL) = ''SELECT 1;''"
    by (simp add: py_strip_def py_lstrip_def py_rstrip_def py_isspace_def)
  have run: "execute_and_normalize ?db ''SELECT 1;'' = CInt 1"
    by (simp add: execute_and_normalize_def normalize_def frame_empty_def iloc00_def)
  show ?thesis using answer_gen_single_block [OF h1 h2 h3, of ?db] strip run by simp
qed

end
